theory Spec2Isabelle
  imports Complex_Main
begin

section \<open>The incremental PDF loader (loader.py)\<close>

text \<open>
  A shallow embedding of \<^verbatim>\<open>loader.py\<close>. The module keeps its state in three places: the
  files under \<^verbatim>\<open>./cache\<close> (the hash index and one JSON file per chunk id), the Chroma
  client with its named collections, and the console. The libraries it calls (the
  directory listing, SHA-1, the two PDF extractors, the text splitter, the sentence
  embedder and \<^verbatim>\<open>collection.add\<close>) are not part of the module; they are the fields of an
  environment record, each returning either an exception or its result.

  Python strings and byte strings are both \<open>string\<close> here, a character being a code
  point below 256, so \<^verbatim>\<open>text.encode("utf-8")\<close> is the identity. Writing a JSON file
  and reading it back gives the value written, and writing a file under \<^verbatim>\<open>./cache\<close>
  is taken to succeed. The progress bar of \<^verbatim>\<open>tqdm\<close> is left out.
\<close>

subsection \<open>Values\<close>

datatype exn = Exception string

text \<open>What \<^verbatim>\<open>json.load\<close> can return; \<open>JNull\<close> is Python's \<^verbatim>\<open>None\<close>.\<close>

datatype json =
    JNull
  | JBool bool
  | JNum real
  | JStr string
  | JList "json list"
  | JObj "(string \<times> json) list"

text \<open>Python truthiness, as tested by \<^verbatim>\<open>not emb\<close>.\<close>

fun truthy :: "json \<Rightarrow> bool" where
  "truthy JNull = False"
| "truthy (JBool b) = b"
| "truthy (JNum x) = (x \<noteq> 0)"
| "truthy (JStr s) = (s \<noteq> [])"
| "truthy (JList xs) = (xs \<noteq> [])"
| "truthy (JObj kvs) = (kvs \<noteq> [])"

text \<open>\<^verbatim>\<open>d.get(k)\<close>: only a dict has the method; a missing key gives \<^verbatim>\<open>None\<close>.\<close>

fun py_get :: "json \<Rightarrow> string \<Rightarrow> exn + json" where
  "py_get (JObj kvs) k = Inr (case map_of kvs k of None \<Rightarrow> JNull | Some v \<Rightarrow> v)"
| "py_get j k = Inl (Exception ''AttributeError'')"

text \<open>\<^verbatim>\<open>d[k] = v\<close> on a dict: an existing key keeps its position, a new one goes last.\<close>

fun dict_update :: "string \<Rightarrow> json \<Rightarrow> (string \<times> json) list \<Rightarrow> (string \<times> json) list" where
  "dict_update k v [] = [(k, v)]"
| "dict_update k v ((k', v') # kvs) =
     (if k' = k then (k, v) # kvs else (k', v') # dict_update k v kvs)"

fun py_setitem :: "json \<Rightarrow> string \<Rightarrow> json \<Rightarrow> exn + json" where
  "py_setitem (JObj kvs) k v = Inr (JObj (dict_update k v kvs))"
| "py_setitem j k v = Inl (Exception ''TypeError'')"

text \<open>A file on disk that exists: its content parses as JSON, or it does not.\<close>

datatype disk_file = Corrupt | Content json

fun json_load :: "disk_file \<Rightarrow> exn + json" where
  "json_load Corrupt = Inl (Exception ''JSONDecodeError'')"
| "json_load (Content j) = Inr j"

text \<open>The dict built at lines 149-154, one per chunk that is to be inserted.\<close>

record chunk_record =
  rec_id :: string
  rec_text :: string
  rec_emb :: json
  rec_source :: string

subsection \<open>Settings\<close>

text \<open>\<^verbatim>\<open>os.path.join\<close> of two components.\<close>

definition path_join :: "string \<Rightarrow> string \<Rightarrow> string" where
  "path_join a b =
     (if b \<noteq> [] \<and> hd b = CHR ''/'' then b
      else if a = [] \<or> last a = CHR ''/'' then a @ b
      else a @ ''/'' @ b)"

definition CACHE_PATH :: string where
  "CACHE_PATH = ''./cache''"

definition COLLECTION_NAME :: string where
  "COLLECTION_NAME = ''laws''"

definition BATCH_SIZE :: nat where
  "BATCH_SIZE = 16"

definition HASH_INDEX_FILE :: string where
  "HASH_INDEX_FILE = path_join CACHE_PATH ''file_hashes.json''"

subsection \<open>The environment and the state\<close>

record env =
  sha1 :: "string \<Rightarrow> string"
  listdir :: "string \<Rightarrow> exn + string list"
  read_bytes :: "string \<Rightarrow> exn + string"
  use_unstructured :: bool
  partition_pdf :: "string \<Rightarrow> exn + string list"
  pdf_pages :: "string \<Rightarrow> exn + string list"
  split_text :: "string \<Rightarrow> exn + string list"
  encode :: "string \<Rightarrow> exn + real list"
  coll_add :: "chunk_record list \<Rightarrow> chunk_record list \<Rightarrow> exn + chunk_record list"

text \<open>
  \<open>sha1\<close> is \<^verbatim>\<open>hashlib.sha1(b).hexdigest()\<close>; \<open>listdir\<close> is \<^verbatim>\<open>os.listdir\<close>; \<open>read_bytes\<close>
  opens a path and reads it whole; \<open>partition_pdf\<close> gives the \<^verbatim>\<open>el.text\<close> of every element
  and \<open>pdf_pages\<close> the \<^verbatim>\<open>p.extract_text()\<close> of every page (an empty string stands for
  \<^verbatim>\<open>None\<close> as well: both are falsy); \<open>split_text\<close> is the splitter with the module's
  parameters; \<open>encode\<close> is \<^verbatim>\<open>embedder.encode(chunk).tolist()\<close>; \<open>coll_add\<close> takes the
  records of the collection and a batch and gives the records after \<^verbatim>\<open>collection.add\<close>.

  The trace lists, in order, what the run printed and the calls it made that read a
  document, touched the cache or the index file, called the embedder or the store.
\<close>

datatype event =
    NoPdfFound
  | SkippedUnchanged string
  | ProcessingFile string
  | SkippedEmpty string
  | ChunksGenerated nat
  | AddedChunks string nat
  | ErrorProcessing string exn
  | TotalAdded nat
  | BatchInsertError exn
  | UsingExisting nat
  | CreatingCollection
  | LoadComplete
  | OldDeleted
  | Rebuilt
  | ReadBytes string
  | ExtractText string
  | CacheRead string
  | Encode string
  | CacheWrite string json
  | CollAdd "chunk_record list"
  | IndexWrite json

text \<open>
  \<open>file_hashes\<close> and \<open>total_added\<close> are the two locals of \<^verbatim>\<open>_process_pdfs\<close> that outlive
  the \<^verbatim>\<open>try\<close> block of a file.
\<close>

record state =
  fs :: "string \<rightharpoonup> disk_file"
  chroma :: "string \<rightharpoonup> chunk_record list"
  trace :: "event list"
  file_hashes :: json
  total_added :: nat

definition emit :: "event list \<Rightarrow> state \<Rightarrow> state" where
  "emit evs st = st\<lparr>trace := trace st @ evs\<rparr>"

subsection \<open>Utility functions\<close>

text \<open>The characters Python counts as whitespace, among the first 256 code points.\<close>

definition is_space :: "char \<Rightarrow> bool" where
  "is_space c =
     (let n = (of_char c :: nat)
      in (9 \<le> n \<and> n \<le> 13) \<or> (28 \<le> n \<and> n \<le> 32) \<or> n = 133 \<or> n = 160)"

definition strip :: "string \<Rightarrow> string" where
  "strip s = rev (dropWhile is_space (rev (dropWhile is_space s)))"

function collapse_ws :: "string \<Rightarrow> string" where
  "collapse_ws [] = []"
| "collapse_ws (c # cs) =
     (if is_space c then CHR '' '' # collapse_ws (dropWhile is_space cs)
      else c # collapse_ws cs)"
  by pat_completeness auto
termination
  by (relation "measure length") (auto simp: length_dropWhile_le less_Suc_eq_le)

definition clean_text :: "string \<Rightarrow> string" where
  "clean_text text =
     strip (collapse_ws (map (\<lambda>c. if c = CHR 0xA0 then CHR '' '' else c) text))"

definition hash_id :: "env \<Rightarrow> string \<Rightarrow> string" where
  "hash_id env text = sha1 env text"

definition hash_file :: "env \<Rightarrow> string \<Rightarrow> exn + string" where
  "hash_file env path =
     (case read_bytes env path of Inl e \<Rightarrow> Inl e | Inr b \<Rightarrow> Inr (sha1 env b))"

definition load_cache :: "(string \<rightharpoonup> disk_file) \<Rightarrow> string \<Rightarrow> json" where
  "load_cache files fp =
     (case files fp of
        None \<Rightarrow> JNull
      | Some f \<Rightarrow> (case json_load f of Inl e \<Rightarrow> JNull | Inr j \<Rightarrow> j))"

definition save_cache :: "(string \<rightharpoonup> disk_file) \<Rightarrow> string \<Rightarrow> json \<Rightarrow> (string \<rightharpoonup> disk_file)" where
  "save_cache files fp data = files(fp \<mapsto> Content data)"

text \<open>\<^verbatim>\<open>"\n".join\<close>.\<close>

fun join_nl :: "string list \<Rightarrow> string" where
  "join_nl [] = []"
| "join_nl [x] = x"
| "join_nl (x # y # ys) = x @ [CHR 0x0A] @ join_nl (y # ys)"

definition extract_text :: "env \<Rightarrow> string \<Rightarrow> exn + string" where
  "extract_text env path =
     (case (if use_unstructured env
            then (case partition_pdf env path of
                    Inl e \<Rightarrow> Inl e
                  | Inr elements \<Rightarrow>
                      (let text = join_nl (filter (\<lambda>t. t \<noteq> []) elements)
                       in if strip text \<noteq> [] then Inr (Some text) else Inr None))
            else Inr None) of
        Inl e \<Rightarrow> Inl e
      | Inr (Some text) \<Rightarrow> Inr text
      | Inr None \<Rightarrow>
          (case pdf_pages env path of
             Inl e \<Rightarrow> Inl e
           | Inr pages \<Rightarrow> Inr (join_nl (filter (\<lambda>t. t \<noteq> []) pages))))"

definition split_text_semantically :: "env \<Rightarrow> string \<Rightarrow> exn + string list" where
  "split_text_semantically env text = split_text env text"

subsection \<open>File hash management\<close>

definition load_hash_index :: "(string \<rightharpoonup> disk_file) \<Rightarrow> json" where
  "load_hash_index files =
     (case files HASH_INDEX_FILE of
        None \<Rightarrow> JObj []
      | Some f \<Rightarrow> (case json_load f of Inl e \<Rightarrow> JObj [] | Inr j \<Rightarrow> j))"

definition save_hash_index :: "(string \<rightharpoonup> disk_file) \<Rightarrow> json \<Rightarrow> (string \<rightharpoonup> disk_file)" where
  "save_hash_index files index = files(HASH_INDEX_FILE \<mapsto> Content index)"

subsection \<open>Main processing\<close>

text \<open>
  \<^verbatim>\<open>_add_batch\<close>: the call to \<^verbatim>\<open>collection.add\<close> inside its own \<^verbatim>\<open>try\<close>. The collection
  is the one the client holds under the name \<open>cname\<close>; adding to a collection that is
  gone raises like any other failure of the store.
\<close>

definition add_batch :: "env \<Rightarrow> string \<Rightarrow> chunk_record list \<Rightarrow> state \<Rightarrow> state" where
  "add_batch env cname batch st =
     (case (case chroma st cname of
              None \<Rightarrow> Inl (Exception ''collection does not exist'')
            | Some recs \<Rightarrow> coll_add env recs batch) of
        Inl e \<Rightarrow> emit [CollAdd batch, BatchInsertError e] st
      | Inr recs' \<Rightarrow> (emit [CollAdd batch] st)\<lparr>chroma := (chroma st)(cname \<mapsto> recs')\<rparr>)"

definition cache_fp :: "string \<Rightarrow> string" where
  "cache_fp uid = path_join CACHE_PATH (uid @ ''.json'')"

text \<open>Lines 143-147: the cached embedding, or a fresh one that is then cached.\<close>

definition get_embedding :: "env \<Rightarrow> string \<Rightarrow> string \<Rightarrow> state \<Rightarrow> (exn + json) \<times> state" where
  "get_embedding env chunk fp st =
     (let emb = load_cache (fs st) fp;
          st1 = emit [CacheRead fp] st
      in if \<not> truthy emb
         then (case encode env chunk of
                 Inl e \<Rightarrow> (Inl e, emit [Encode chunk] st1)
               | Inr v \<Rightarrow>
                   (let emb' = JList (map JNum v)
                    in (Inr emb',
                        (emit [Encode chunk, CacheWrite fp emb'] st1)
                          \<lparr>fs := save_cache (fs st1) fp emb'\<rparr>)))
         else (Inr emb, st1))"

text \<open>The body of the loop over the chunks of one file (lines 139-159).\<close>

definition chunk_step ::
  "env \<Rightarrow> string \<Rightarrow> string \<Rightarrow> string set \<Rightarrow> string \<Rightarrow> chunk_record list \<Rightarrow> state
     \<Rightarrow> (exn + chunk_record list) \<times> state" where
  "chunk_step env cname file existing_ids chunk to_add st =
     (let uid = hash_id env (chunk @ file)
      in if uid \<in> existing_ids then (Inr to_add, st)
         else
           (case get_embedding env chunk (cache_fp uid) st of
              (Inl e, st1) \<Rightarrow> (Inl e, st1)
            | (Inr emb, st1) \<Rightarrow>
                (let to_add1 = to_add @
                       [\<lparr>rec_id = uid, rec_text = chunk, rec_emb = emb, rec_source = file\<rparr>]
                 in if length to_add1 \<ge> BATCH_SIZE
                    then (let st2 = add_batch env cname to_add1 st1
                          in (Inr [], st2\<lparr>total_added := total_added st2 + length to_add1\<rparr>))
                    else (Inr to_add1, st1))))"

fun chunk_loop ::
  "env \<Rightarrow> string \<Rightarrow> string \<Rightarrow> string set \<Rightarrow> string list \<Rightarrow> chunk_record list \<Rightarrow> state
     \<Rightarrow> (exn + chunk_record list) \<times> state" where
  "chunk_loop env cname file existing_ids [] to_add st = (Inr to_add, st)"
| "chunk_loop env cname file existing_ids (chunk # chunks) to_add st =
     (case chunk_step env cname file existing_ids chunk to_add st of
        (Inl e, st1) \<Rightarrow> (Inl e, st1)
      | (Inr to_add1, st1) \<Rightarrow> chunk_loop env cname file existing_ids chunks to_add1 st1)"

text \<open>Lines 161-169: the last batch, then the hash of the file goes into the index.\<close>

definition finish_file ::
  "env \<Rightarrow> string \<Rightarrow> string \<Rightarrow> string \<Rightarrow> nat \<Rightarrow> chunk_record list \<Rightarrow> state
     \<Rightarrow> (exn + unit) \<times> state" where
  "finish_file env cname file file_hash n to_add st =
     (let st1 = (if to_add \<noteq> []
                 then (let st' = add_batch env cname to_add st
                       in st'\<lparr>total_added := total_added st' + length to_add\<rparr>)
                 else st)
      in case py_setitem (file_hashes st1) file (JStr file_hash) of
           Inl e \<Rightarrow> (Inl e, st1)
         | Inr index \<Rightarrow>
             (Inr (),
              (emit [IndexWrite index, AddedChunks file n] st1)
                \<lparr>file_hashes := index, fs := save_hash_index (fs st1) index\<rparr>))"

text \<open>
  The body of the \<^verbatim>\<open>try\<close> block of one file (lines 129-169). \<open>Inl\<close> is an exception on
  its way to the handler; the \<^verbatim>\<open>continue\<close> of an empty text ends the block normally.
\<close>

definition try_body ::
  "env \<Rightarrow> string \<Rightarrow> string set \<Rightarrow> string \<Rightarrow> string \<Rightarrow> string \<Rightarrow> state
     \<Rightarrow> (exn + unit) \<times> state" where
  "try_body env cname existing_ids file path file_hash st =
     (let st1 = emit [ExtractText path] st
      in case extract_text env path of
           Inl e \<Rightarrow> (Inl e, st1)
         | Inr text \<Rightarrow>
             if strip text = [] then (Inr (), emit [SkippedEmpty file] st1)
             else
               (case split_text_semantically env (clean_text text) of
                  Inl e \<Rightarrow> (Inl e, st1)
                | Inr chunks \<Rightarrow>
                    (case chunk_loop env cname file existing_ids chunks []
                            (emit [ChunksGenerated (length chunks)] st1) of
                       (Inl e, st2) \<Rightarrow> (Inl e, st2)
                     | (Inr to_add, st2) \<Rightarrow>
                         finish_file env cname file file_hash (length chunks) to_add st2)))"

text \<open>The \<^verbatim>\<open>try\<close> block with its handler: every exception is caught and printed.\<close>

definition process_file ::
  "env \<Rightarrow> string \<Rightarrow> string set \<Rightarrow> string \<Rightarrow> string \<Rightarrow> string \<Rightarrow> state \<Rightarrow> state" where
  "process_file env cname existing_ids file path file_hash st =
     (case try_body env cname existing_ids file path file_hash st of
        (Inl e, st1) \<Rightarrow> emit [ErrorProcessing file e] st1
      | (Inr u, st1) \<Rightarrow> st1)"

text \<open>
  The loop over the files (lines 117-171). Hashing the file and looking it up in the
  index happen before the \<^verbatim>\<open>try\<close>: an exception there ends the run.
\<close>

fun files_loop ::
  "env \<Rightarrow> string \<Rightarrow> string \<Rightarrow> string set \<Rightarrow> string list \<Rightarrow> state \<Rightarrow> (exn + unit) \<times> state" where
  "files_loop env cname folder existing_ids [] st = (Inr (), st)"
| "files_loop env cname folder existing_ids (file # files) st =
     (let path = path_join folder file;
          st1 = emit [ReadBytes path] st
      in case hash_file env path of
           Inl e \<Rightarrow> (Inl e, st1)
         | Inr file_hash \<Rightarrow>
             (case py_get (file_hashes st1) file of
                Inl e \<Rightarrow> (Inl e, st1)
              | Inr h \<Rightarrow>
                  if h = JStr file_hash
                  then files_loop env cname folder existing_ids files
                         (emit [SkippedUnchanged file] st1)
                  else files_loop env cname folder existing_ids files
                         (process_file env cname existing_ids file path file_hash
                            (emit [ProcessingFile file] st1))))"

text \<open>
  \<^verbatim>\<open>str.lower\<close> on the first 256 code points: the letters A to Z and the capital
  letters of Latin-1 move up by 32.
\<close>

definition lower :: "string \<Rightarrow> string" where
  "lower s =
     map (\<lambda>c. let n = (of_char c :: nat)
              in if (65 \<le> n \<and> n \<le> 90) \<or> (192 \<le> n \<and> n \<le> 222 \<and> n \<noteq> 215)
                 then char_of (n + 32) else c) s"

definition endswith :: "string \<Rightarrow> string \<Rightarrow> bool" where
  "endswith s suffix = (take (length suffix) (rev s) = rev suffix)"

definition is_pdf :: "string \<Rightarrow> bool" where
  "is_pdf f = endswith (lower f) ''.pdf''"

definition process_pdfs :: "env \<Rightarrow> string \<Rightarrow> string \<Rightarrow> state \<Rightarrow> (exn + unit) \<times> state" where
  "process_pdfs env cname folder st =
     (case listdir env folder of
        Inl e \<Rightarrow> (Inl e, st)
      | Inr entries \<Rightarrow>
          (let files = filter is_pdf entries
           in if files = [] then (Inr (), emit [NoPdfFound] st)
              else
                (let st1 = st\<lparr>file_hashes := load_hash_index (fs st)\<rparr>
                 in case chroma st1 cname of
                      None \<Rightarrow> (Inl (Exception ''collection does not exist''), st1)
                    | Some recs \<Rightarrow>
                        (let existing_ids =
                               (if length recs \<noteq> 0 then set (map rec_id recs) else {})
                         in case files_loop env cname folder existing_ids files
                                   (st1\<lparr>total_added := 0\<rparr>) of
                              (Inl e, st2) \<Rightarrow> (Inl e, st2)
                            | (Inr u, st2) \<Rightarrow>
                                (Inr (), emit [TotalAdded (total_added st2)] st2)))))"

subsection \<open>Public API\<close>

definition load_pdfs :: "env \<Rightarrow> string \<Rightarrow> state \<Rightarrow> (exn + unit) \<times> state" where
  "load_pdfs env folder st =
     (let st1 = (case chroma st COLLECTION_NAME of
                   Some recs \<Rightarrow> emit [UsingExisting (length recs)] st
                 | None \<Rightarrow>
                     (emit [CreatingCollection] st)
                       \<lparr>chroma := (chroma st)(COLLECTION_NAME \<mapsto> [])\<rparr>)
      in case process_pdfs env COLLECTION_NAME folder st1 of
           (Inl e, st2) \<Rightarrow> (Inl e, st2)
         | (Inr u, st2) \<Rightarrow> (Inr (), emit [LoadComplete] st2))"

definition reload_pdfs :: "env \<Rightarrow> string \<Rightarrow> state \<Rightarrow> (exn + unit) \<times> state" where
  "reload_pdfs env folder st =
     (let st_gone = (case chroma st COLLECTION_NAME of
                   Some recs \<Rightarrow>
                     (emit [OldDeleted] st)\<lparr>chroma := (chroma st)(COLLECTION_NAME := None)\<rparr>
                 | None \<Rightarrow> st);
          st1 = st_gone\<lparr>chroma := (chroma st_gone)(COLLECTION_NAME \<mapsto> [])\<rparr>
      in case process_pdfs env COLLECTION_NAME folder st1 of
           (Inl e, st2) \<Rightarrow> (Inl e, st2)
         | (Inr u, st2) \<Rightarrow> (Inr (), emit [Rebuilt] st2))"

subsection \<open>Notions used in the properties\<close>

text \<open>
  A SHA-1 hex digest has 40 characters. This keeps the cache file of a chunk apart from
  the index file, which lies in the same directory.
\<close>

definition hexdigest_ok :: "env \<Rightarrow> bool" where
  "hexdigest_ok env = (\<forall>x. length (sha1 env x) = 40)"

text \<open>The second state continues the trace of the first by events that satisfy \<open>Q\<close>.\<close>

definition appended :: "(event \<Rightarrow> bool) \<Rightarrow> state \<Rightarrow> state \<Rightarrow> bool" where
  "appended Q st st' = (\<exists>evs. trace st' = trace st @ evs \<and> list_all Q evs)"

text \<open>
  What holds of every record in the buffer of a file, and of every event between the
  start and the end of the \<^verbatim>\<open>try\<close> block of a file.
\<close>

definition rec_ok :: "env \<Rightarrow> string set \<Rightarrow> string \<Rightarrow> chunk_record \<Rightarrow> bool" where
  "rec_ok env ex file r =
     (rec_source r = file \<and> rec_id r = hash_id env (rec_text r @ file) \<and> rec_id r \<notin> ex)"

definition file_ev :: "env \<Rightarrow> string set \<Rightarrow> string \<Rightarrow> string \<Rightarrow> event \<Rightarrow> bool" where
  "file_ev env ex file path ev =
     (case ev of
        ExtractText p \<Rightarrow> p = path
      | CacheRead p \<Rightarrow> (\<exists>c. hash_id env (c @ file) \<notin> ex \<and> p = cache_fp (hash_id env (c @ file)))
      | CacheWrite p j \<Rightarrow> (\<exists>c. hash_id env (c @ file) \<notin> ex \<and> p = cache_fp (hash_id env (c @ file)))
      | Encode c \<Rightarrow> hash_id env (c @ file) \<notin> ex
      | CollAdd batch \<Rightarrow> batch \<noteq> [] \<and> length batch \<le> BATCH_SIZE \<and> list_all (rec_ok env ex file) batch
      | SkippedEmpty f \<Rightarrow> f = file
      | AddedChunks f n \<Rightarrow> f = file
      | ErrorProcessing f e \<Rightarrow> f = file
      | ChunksGenerated n \<Rightarrow> True
      | BatchInsertError e \<Rightarrow> True
      | IndexWrite j \<Rightarrow> True
      | _ \<Rightarrow> False)"

text \<open>The same for the loop over the files \<open>F\<close> of a folder.\<close>

definition run_ev :: "env \<Rightarrow> string \<Rightarrow> string set \<Rightarrow> string set \<Rightarrow> event \<Rightarrow> bool" where
  "run_ev env folder ex F ev =
     (case ev of
        ReadBytes p \<Rightarrow> p \<in> path_join folder ` F
      | SkippedUnchanged f \<Rightarrow> f \<in> F
      | ProcessingFile f \<Rightarrow> f \<in> F
      | _ \<Rightarrow> (\<exists>f\<in>F. file_ev env ex f (path_join folder f) ev))"

text \<open>The two notices that tell that a file was not committed.\<close>

definition is_failure :: "event \<Rightarrow> bool" where
  "is_failure ev = (case ev of ErrorProcessing f e \<Rightarrow> True | SkippedEmpty f \<Rightarrow> True | _ \<Rightarrow> False)"

text \<open>The list \<^verbatim>\<open>files\<close> of line 108, and the set \<^verbatim>\<open>existing_ids\<close> of line 114.\<close>

definition pdf_files :: "env \<Rightarrow> string \<Rightarrow> string list" where
  "pdf_files env folder =
     (case listdir env folder of Inl e \<Rightarrow> [] | Inr entries \<Rightarrow> filter is_pdf entries)"

definition snapshot :: "state \<Rightarrow> string \<Rightarrow> string set" where
  "snapshot st cname = (case chroma st cname of None \<Rightarrow> {} | Some recs \<Rightarrow> set (map rec_id recs))"


text \<open>In a batch, each id is the digest of the text followed by the source.\<close>

definition ids_are_digests :: "env \<Rightarrow> event \<Rightarrow> bool" where
  "ids_are_digests env ev =
     (case ev of
        CollAdd batch \<Rightarrow> list_all (\<lambda>rc. rec_id rc = sha1 env (rec_text rc @ rec_source rc)) batch
      | _ \<Rightarrow> True)"

text \<open>An event concerns files of \<open>F\<close> only.\<close>

definition pdf_only :: "env \<Rightarrow> string \<Rightarrow> string set \<Rightarrow> event \<Rightarrow> bool" where
  "pdf_only env folder F ev =
     (case ev of
        ReadBytes p \<Rightarrow> p \<in> path_join folder ` F
      | ExtractText p \<Rightarrow> p \<in> path_join folder ` F
      | SkippedUnchanged f \<Rightarrow> f \<in> F
      | ProcessingFile f \<Rightarrow> f \<in> F
      | SkippedEmpty f \<Rightarrow> f \<in> F
      | AddedChunks f n \<Rightarrow> f \<in> F
      | ErrorProcessing f e \<Rightarrow> f \<in> F
      | CollAdd batch \<Rightarrow> list_all (\<lambda>rc. rec_source rc \<in> F) batch
      | CacheRead p \<Rightarrow> (\<exists>f\<in>F. \<exists>c. p = cache_fp (hash_id env (c @ f)))
      | CacheWrite p j \<Rightarrow> (\<exists>f\<in>F. \<exists>c. p = cache_fp (hash_id env (c @ f)))
      | _ \<Rightarrow> True)"


text \<open>The trace of a loop over files that are all unchanged.\<close>

definition skip_events :: "string \<Rightarrow> string list \<Rightarrow> event list" where
  "skip_events folder files =
     concat (map (\<lambda>f. [ReadBytes (path_join folder f), SkippedUnchanged f]) files)"


text \<open>The collection exists, has the ids of \<open>recs\<close>, and none twice if \<open>recs\<close> has none twice.\<close>

definition keeps_ids :: "string \<Rightarrow> chunk_record list \<Rightarrow> state \<Rightarrow> bool" where
  "keeps_ids cname recs st =
     (case chroma st cname of
        None \<Rightarrow> False
      | Some recs' \<Rightarrow> set (map rec_id recs) \<subseteq> set (map rec_id recs')
          \<and> (distinct (map rec_id recs) \<longrightarrow> distinct (map rec_id recs')))"


subsection \<open>Example environments and states\<close>

text \<open>
  A small world to run the loader in. The digest pads or cuts its argument to 40
  characters, so that it can be read off. The folder holds one PDF and one other file;
  the document has one page, which is one chunk; the store appends what it is given.
\<close>

definition toy_sha1 :: "string \<Rightarrow> string" where
  "toy_sha1 s = take 40 (s @ replicate 40 (CHR ''0''))"

definition toy_env :: env where
  "toy_env = \<lparr>sha1 = toy_sha1,
     listdir = (\<lambda>d. Inr [''a.PDF'', ''notes.txt'']),
     read_bytes = (\<lambda>p. Inr (''%PDF '' @ p)),
     use_unstructured = False,
     partition_pdf = (\<lambda>p. Inr []),
     pdf_pages = (\<lambda>p. Inr [''alpha  beta'']),
     split_text = (\<lambda>t. Inr [t]),
     encode = (\<lambda>c. Inr [1 / 2, 1 / 4]),
     coll_add = (\<lambda>recs batch. Inr (recs @ batch))\<rparr>"

text \<open>Nothing on disk and no collection; then with the collection, empty.\<close>

definition st0 :: state where
  "st0 = \<lparr>fs = Map.empty, chroma = Map.empty, trace = [], file_hashes = JNull, total_added = 0\<rparr>"

definition st_laws :: state where
  "st_laws = st0\<lparr>chroma := [COLLECTION_NAME \<mapsto> []]\<rparr>"

text \<open>The same, at the point where the loop over the files starts.\<close>

definition st_run :: state where
  "st_run = st_laws\<lparr>file_hashes := JObj []\<rparr>"

text \<open>The record of the one chunk of \<^verbatim>\<open>a.PDF\<close>, and a collection that holds it.\<close>

definition toy_record :: chunk_record where
  "toy_record = \<lparr>rec_id = ''alpha betaa.PDF0000000000000000000000000'',
     rec_text = ''alpha beta'', rec_emb = JList [JNum (1 / 2), JNum (1 / 4)],
     rec_source = ''a.PDF''\<rparr>"


text \<open>The cache file of that chunk holds \<open>j\<close>; the cache file and the index file are corrupt.\<close>

definition st_cached :: "json \<Rightarrow> state" where
  "st_cached j = st_laws\<lparr>fs := [cache_fp (rec_id toy_record) \<mapsto> Content j]\<rparr>"

definition st_corrupt :: state where
  "st_corrupt = st_laws\<lparr>fs := [HASH_INDEX_FILE \<mapsto> Corrupt,
     cache_fp (rec_id toy_record) \<mapsto> Corrupt], file_hashes := JObj []\<rparr>"



text \<open>No entry of the folder ends in \<^verbatim>\<open>.pdf\<close>.\<close>

definition nopdf_env :: env where
  "nopdf_env = toy_env\<lparr>listdir := (\<lambda>d. Inr [''notes.txt'', ''pdf''])\<rparr>"

text \<open>The store refuses every batch.\<close>

definition failing_env :: env where
  "failing_env = toy_env\<lparr>coll_add := (\<lambda>recs batch. Inl (Exception ''store down''))\<rparr>"

text \<open>
  Two PDFs, the text of each is its path, and the embedder fails on the text of the
  first.
\<close>

definition two_env :: env where
  "two_env = toy_env\<lparr>listdir := (\<lambda>d. Inr [''a.PDF'', ''b.pdf'']),
     pdf_pages := (\<lambda>p. Inr [p]),
     encode := (\<lambda>c. if c = ''./laws/a.PDF'' then Inl (Exception ''encoder down'') else Inr [1])\<rparr>"



section \<open>Properties\<close>

subsection \<open>Auxiliary facts\<close>

lemma emit_simps [simp]:
  "fs (emit evs st) = fs st"
  "chroma (emit evs st) = chroma st"
  "file_hashes (emit evs st) = file_hashes st"
  "total_added (emit evs st) = total_added st"
  "trace (emit evs st) = trace st @ evs"
  by (simp_all add: emit_def)

lemma appended_refl [simp]: "appended Q st st"
  by (simp add: appended_def)

lemma appended_trans: "appended Q st st1 \<Longrightarrow> appended Q st1 st2 \<Longrightarrow> appended Q st st2"
  by (auto simp: appended_def)

lemma appended_emit: "list_all Q evs \<Longrightarrow> appended Q st (emit evs st)"
  by (simp add: appended_def)

lemma appended_same_trace: "trace st' = trace st \<Longrightarrow> appended Q st st'"
  by (simp add: appended_def)

lemma appended_mono: "appended Q st st' \<Longrightarrow> (\<And>ev. Q ev \<Longrightarrow> R ev) \<Longrightarrow> appended R st st'"
  by (auto simp: appended_def list_all_iff)


lemma cache_fp_not_index: "length u = 40 \<Longrightarrow> cache_fp u \<noteq> HASH_INDEX_FILE"
proof
  assume len: "length u = 40" and eq: "cache_fp u = HASH_INDEX_FILE"
  have "length (cache_fp u) \<ge> 45"
    using len by (simp add: cache_fp_def path_join_def CACHE_PATH_def)
  moreover have "length HASH_INDEX_FILE = 24"
    by (simp add: HASH_INDEX_FILE_def path_join_def CACHE_PATH_def)
  ultimately show False using eq by simp
qed

lemma toy_hexdigest_ok: "hexdigest_ok toy_env"
  by (auto simp: hexdigest_ok_def toy_env_def toy_sha1_def min_def)

lemma add_batch_frame [simp]:
  "fs (add_batch env cname batch st) = fs st"
  "file_hashes (add_batch env cname batch st) = file_hashes st"
  "total_added (add_batch env cname batch st) = total_added st"
  by (simp_all add: add_batch_def split: option.splits sum.splits)

lemma add_batch_appended:
  "Q (CollAdd batch) \<Longrightarrow> (\<And>e. Q (BatchInsertError e)) \<Longrightarrow> appended Q st (add_batch env cname batch st)"
  by (auto simp: add_batch_def appended_def split: option.splits sum.splits)

lemma get_embedding_frame:
  assumes "get_embedding env chunk fp st = (r, st1)"
  shows "file_hashes st1 = file_hashes st" "total_added st1 = total_added st"
    "chroma st1 = chroma st" "p \<noteq> fp \<Longrightarrow> fs st1 p = fs st p"
  using assms
  by (auto simp: get_embedding_def Let_def save_cache_def split: if_splits sum.splits)

lemma get_embedding_appended:
  assumes "get_embedding env chunk fp st = (r, st1)"
    and "Q (CacheRead fp)" "Q (Encode chunk)" "\<And>j. Q (CacheWrite fp j)"
  shows "appended Q st st1"
  using assms
  by (auto simp: get_embedding_def Let_def appended_def split: if_splits sum.splits)

lemma file_ev_simps [simp]:
  "file_ev env ex file path (ExtractText p) = (p = path)"
  "file_ev env ex file path (CacheRead p) =
     (\<exists>c. hash_id env (c @ file) \<notin> ex \<and> p = cache_fp (hash_id env (c @ file)))"
  "file_ev env ex file path (CacheWrite p j) =
     (\<exists>c. hash_id env (c @ file) \<notin> ex \<and> p = cache_fp (hash_id env (c @ file)))"
  "file_ev env ex file path (Encode c) = (hash_id env (c @ file) \<notin> ex)"
  "file_ev env ex file path (CollAdd batch) =
     (batch \<noteq> [] \<and> length batch \<le> BATCH_SIZE \<and> list_all (rec_ok env ex file) batch)"
  "file_ev env ex file path (SkippedEmpty f) = (f = file)"
  "file_ev env ex file path (AddedChunks f n) = (f = file)"
  "file_ev env ex file path (ErrorProcessing f e) = (f = file)"
  "file_ev env ex file path (ChunksGenerated n)"
  "file_ev env ex file path (BatchInsertError e)"
  "file_ev env ex file path (IndexWrite j)"
  "\<not> file_ev env ex file path (ReadBytes p)"
  "\<not> file_ev env ex file path (SkippedUnchanged f)"
  "\<not> file_ev env ex file path (ProcessingFile f)"
  "\<not> file_ev env ex file path (TotalAdded n)"
  "\<not> file_ev env ex file path NoPdfFound"
  by (simp_all add: file_ev_def)

lemma chunk_step_events:
  assumes "chunk_step env cname file ex chunk to_add st = (r, st1)"
    and "list_all (rec_ok env ex file) to_add" "length to_add < BATCH_SIZE"
  shows "appended (file_ev env ex file path) st st1"
proof (cases "hash_id env (chunk @ file) \<in> ex")
  case True
  with assms show ?thesis by (simp add: chunk_step_def)
next
  case False
  let ?uid = "hash_id env (chunk @ file)"
  obtain g sg where g: "get_embedding env chunk (cache_fp ?uid) st = (g, sg)"
    by (cases "get_embedding env chunk (cache_fp ?uid) st")
  have a1: "appended (file_ev env ex file path) st sg"
    using False by (intro get_embedding_appended [OF g]) auto
  show ?thesis
  proof (cases g)
    case (Inl e)
    with assms g False a1 show ?thesis by (simp add: chunk_step_def)
  next
    case (Inr emb)
    let ?buf = "to_add @ [\<lparr>rec_id = ?uid, rec_text = chunk, rec_emb = emb, rec_source = file\<rparr>]"
    have bok: "list_all (rec_ok env ex file) ?buf"
      using assms(2) False by (simp add: rec_ok_def)
    show ?thesis
    proof (cases "length ?buf \<ge> BATCH_SIZE")
      case True
      have "appended (file_ev env ex file path) sg (add_batch env cname ?buf sg)"
        using bok assms(3) by (intro add_batch_appended) auto
      then have "appended (file_ev env ex file path) sg st1"
        using assms(1) g Inr False True
        by (auto simp: chunk_step_def Let_def appended_def)
      with a1 show ?thesis by (rule appended_trans)
    next
      case F2: False
      with assms g Inr False a1 show ?thesis by (auto simp: chunk_step_def Let_def)
    qed
  qed
qed

lemma chunk_step_buffer:
  assumes "chunk_step env cname file ex chunk to_add st = (Inr to_add1, st1)"
    and "list_all (rec_ok env ex file) to_add" "length to_add < BATCH_SIZE"
  shows "list_all (rec_ok env ex file) to_add1 \<and> length to_add1 < BATCH_SIZE"
  using assms
  by (auto simp: chunk_step_def Let_def rec_ok_def split: if_splits prod.splits sum.splits)

lemma chunk_loop_events:
  assumes "chunk_loop env cname file ex chunks to_add st = (r, st1)"
    and "list_all (rec_ok env ex file) to_add" "length to_add < BATCH_SIZE"
  shows "appended (file_ev env ex file path) st st1"
  using assms
proof (induction chunks arbitrary: to_add st)
  case Nil
  then show ?case by simp
next
  case (Cons c cs)
  obtain r1 s1 where s: "chunk_step env cname file ex c to_add st = (r1, s1)"
    by (cases "chunk_step env cname file ex c to_add st")
  have a1: "appended (file_ev env ex file path) st s1"
    using s Cons.prems(2,3) by (rule chunk_step_events)
  show ?case
  proof (cases r1)
    case (Inl e)
    with Cons.prems s a1 show ?thesis by simp
  next
    case (Inr buf)
    have b: "list_all (rec_ok env ex file) buf \<and> length buf < BATCH_SIZE"
      using s Cons.prems(2,3) unfolding Inr by (rule chunk_step_buffer)
    have "chunk_loop env cname file ex cs buf s1 = (r, st1)"
      using Cons.prems(1) s Inr by simp
    then have "appended (file_ev env ex file path) s1 st1"
      using b by (intro Cons.IH) auto
    with a1 show ?thesis by (rule appended_trans)
  qed
qed

lemma chunk_loop_buffer:
  assumes "chunk_loop env cname file ex chunks to_add st = (Inr to_add1, st1)"
    and "list_all (rec_ok env ex file) to_add" "length to_add < BATCH_SIZE"
  shows "list_all (rec_ok env ex file) to_add1 \<and> length to_add1 < BATCH_SIZE"
  using assms
proof (induction chunks arbitrary: to_add st)
  case Nil
  then show ?case by simp
next
  case (Cons c cs)
  obtain r1 s1 where s: "chunk_step env cname file ex c to_add st = (r1, s1)"
    by (cases "chunk_step env cname file ex c to_add st")
  show ?case
  proof (cases r1)
    case (Inl e)
    with Cons.prems s show ?thesis by simp
  next
    case (Inr buf)
    have b: "list_all (rec_ok env ex file) buf \<and> length buf < BATCH_SIZE"
      using s Cons.prems(2,3) unfolding Inr by (rule chunk_step_buffer)
    have "chunk_loop env cname file ex cs buf s1 = (Inr to_add1, st1)"
      using Cons.prems(1) s Inr by simp
    then show ?thesis using b by (intro Cons.IH) auto
  qed
qed

lemma load_hash_index_cong:
  "f1 HASH_INDEX_FILE = f2 HASH_INDEX_FILE \<Longrightarrow> load_hash_index f1 = load_hash_index f2"
  by (simp add: load_hash_index_def)

lemma load_save_hash_index [simp]: "load_hash_index (save_hash_index files index) = index"
  by (simp add: load_hash_index_def save_hash_index_def)

lemma map_of_dict_update: "map_of (dict_update k v kvs) = (map_of kvs)(k \<mapsto> v)"
  by (induction kvs) (auto simp: fun_eq_iff)

lemma py_get_setitem:
  "py_setitem j k v = Inr j' \<Longrightarrow> py_get j' k' = (if k' = k then Inr v else py_get j k')"
  by (cases j) (auto simp: map_of_dict_update)

lemma py_setitem_ok: "py_get j k = Inr h \<Longrightarrow> \<exists>j'. py_setitem j k' v = Inr j'"
  by (cases j) auto

lemma chunk_step_frame:
  assumes "chunk_step env cname file ex chunk to_add st = (r, st1)"
  shows "file_hashes st1 = file_hashes st"
    and "hexdigest_ok env \<Longrightarrow> fs st1 HASH_INDEX_FILE = fs st HASH_INDEX_FILE"
    and "chroma st c \<noteq> None \<Longrightarrow> chroma st1 c \<noteq> None"
proof -
  let ?uid = "hash_id env (chunk @ file)"
  obtain g sg where g: "get_embedding env chunk (cache_fp ?uid) st = (g, sg)"
    by (cases "get_embedding env chunk (cache_fp ?uid) st")
  note fr = get_embedding_frame [OF g]
  show "file_hashes st1 = file_hashes st"
    using assms g fr(1)
    by (auto simp: chunk_step_def Let_def split: if_splits sum.splits)
  show "fs st1 HASH_INDEX_FILE = fs st HASH_INDEX_FILE" if "hexdigest_ok env"
  proof -
    have "HASH_INDEX_FILE \<noteq> cache_fp ?uid"
      using that cache_fp_not_index [of ?uid] by (auto simp: hexdigest_ok_def hash_id_def)
    then have "fs sg HASH_INDEX_FILE = fs st HASH_INDEX_FILE" by (rule fr(4))
    then show ?thesis
      using assms g by (auto simp: chunk_step_def Let_def split: if_splits sum.splits)
  qed
  show "chroma st1 c \<noteq> None" if "chroma st c \<noteq> None"
    using assms g fr(3) that
    by (auto simp: chunk_step_def Let_def add_batch_def emit_def split: if_splits sum.splits option.splits)
qed

lemma chunk_loop_frame:
  assumes "chunk_loop env cname file ex chunks to_add st = (r, st1)"
  shows "file_hashes st1 = file_hashes st
       \<and> (hexdigest_ok env \<longrightarrow> fs st1 HASH_INDEX_FILE = fs st HASH_INDEX_FILE)
       \<and> (chroma st c \<noteq> None \<longrightarrow> chroma st1 c \<noteq> None)"
  using assms
proof (induction chunks arbitrary: to_add st)
  case Nil
  then show ?case by simp
next
  case (Cons x xs)
  obtain r1 s1 where s: "chunk_step env cname file ex x to_add st = (r1, s1)"
    by (cases "chunk_step env cname file ex x to_add st")
  note fr = chunk_step_frame [OF s]
  show ?case
  proof (cases r1)
    case (Inl e)
    with Cons.prems s fr show ?thesis by auto
  next
    case (Inr buf)
    have "chunk_loop env cname file ex xs buf s1 = (r, st1)"
      using Cons.prems s Inr by simp
    from Cons.IH [OF this] fr show ?thesis by auto
  qed
qed

lemma finish_file_events:
  assumes "finish_file env cname file file_hash n to_add st = (r, st1)"
    and "list_all (rec_ok env ex file) to_add" "length to_add < BATCH_SIZE"
  shows "appended (file_ev env ex file path) st st1"
proof -
  let ?s1 = "if to_add \<noteq> []
             then (add_batch env cname to_add st)\<lparr>total_added := total_added (add_batch env cname to_add st) + length to_add\<rparr>
             else st"
  have a: "appended (file_ev env ex file path) st ?s1"
  proof (cases "to_add = []")
    case True
    then show ?thesis by simp
  next
    case False
    have "appended (file_ev env ex file path) st (add_batch env cname to_add st)"
      using assms(2,3) False by (intro add_batch_appended) auto
    then show ?thesis using False by (simp add: appended_def)
  qed
  have "appended (file_ev env ex file path) ?s1 st1"
    using assms(1)
    by (auto simp: finish_file_def Let_def appended_def split: sum.splits if_splits)
  with a show ?thesis by (rule appended_trans)
qed

lemma finish_file_Inl:
  assumes "finish_file env cname file file_hash n to_add st = (Inl e, st1)"
  shows "file_hashes st1 = file_hashes st" "fs st1 = fs st" "py_setitem (file_hashes st) file (JStr file_hash) = Inl e"
  using assms by (auto simp: finish_file_def Let_def split: sum.splits if_splits)

lemma finish_file_Inr:
  assumes "finish_file env cname file file_hash n to_add st = (Inr u, st1)"
  shows "py_setitem (file_hashes st) file (JStr file_hash) = Inr (file_hashes st1)"
    and "fs st1 = save_hash_index (fs st) (file_hashes st1)"
  using assms by (auto simp: finish_file_def Let_def split: sum.splits if_splits)

lemma finish_file_chroma:
  assumes "finish_file env cname file file_hash n to_add st = (r, st1)" "chroma st c \<noteq> None"
  shows "chroma st1 c \<noteq> None"
  using assms
  by (auto simp: finish_file_def Let_def add_batch_def emit_def split: sum.splits if_splits option.splits)

lemma try_body_events:
  assumes "try_body env cname ex file path file_hash st = (r, st1)"
  shows "appended (file_ev env ex file path) st st1"
proof -
  let ?Q = "file_ev env ex file path"
  let ?s1 = "emit [ExtractText path] st"
  have a1: "appended ?Q st ?s1" by (rule appended_emit) simp
  show ?thesis
  proof (cases "extract_text env path")
    case (Inl e)
    with assms a1 show ?thesis by (simp add: try_body_def)
  next
    case (Inr content)
    note ext = this
    show ?thesis
    proof (cases "strip content = []")
      case True
      have "appended ?Q ?s1 (emit [SkippedEmpty file] ?s1)" by (rule appended_emit) simp
      with a1 have "appended ?Q st (emit [SkippedEmpty file] ?s1)" by (rule appended_trans)
      with assms ext True show ?thesis by (simp add: try_body_def)
    next
      case False
      show ?thesis
      proof (cases "split_text_semantically env (clean_text content)")
        case (Inl e)
        with assms a1 ext False show ?thesis by (simp add: try_body_def)
      next
        case (Inr chunks)
        let ?s2 = "emit [ChunksGenerated (length chunks)] ?s1"
        have a2: "appended ?Q ?s1 ?s2" by (rule appended_emit) simp
        obtain r3 s3 where l: "chunk_loop env cname file ex chunks [] ?s2 = (r3, s3)"
          by (cases "chunk_loop env cname file ex chunks [] ?s2")
        have a3: "appended ?Q ?s2 s3"
          by (rule chunk_loop_events [OF l]) (simp_all add: BATCH_SIZE_def)
        have a13: "appended ?Q st s3"
          using a1 a2 a3 by (blast intro: appended_trans)
        show ?thesis
        proof (cases r3)
          case (Inl e)
          with assms ext False Inr l a13 show ?thesis by (simp add: try_body_def)
        next
          case r3: (Inr to_add)
          have b: "list_all (rec_ok env ex file) to_add \<and> length to_add < BATCH_SIZE"
            by (rule chunk_loop_buffer [OF l [unfolded r3]]) (simp_all add: BATCH_SIZE_def)
          have f: "finish_file env cname file file_hash (length chunks) to_add s3 = (r, st1)"
            using assms ext False Inr l r3 by (simp add: try_body_def)
          have "appended ?Q s3 st1"
            using b by (intro finish_file_events [OF f]) auto
          with a13 show ?thesis by (rule appended_trans)
        qed
      qed
    qed
  qed
qed

lemma try_body_cases [consumes 1, case_names extract_fail empty split_fail loop_fail finish]:
  assumes "try_body env cname ex file path file_hash st = (r, st1)"
  obtains
    e where "extract_text env path = Inl e" "r = Inl e" "st1 = emit [ExtractText path] st"
  | content where "extract_text env path = Inr content" "strip content = []" "r = Inr ()"
      "st1 = emit [SkippedEmpty file] (emit [ExtractText path] st)"
  | content e where "extract_text env path = Inr content" "strip content \<noteq> []"
      "split_text_semantically env (clean_text content) = Inl e" "r = Inl e"
      "st1 = emit [ExtractText path] st"
  | content chunks e where "extract_text env path = Inr content" "strip content \<noteq> []"
      "split_text_semantically env (clean_text content) = Inr chunks"
      "chunk_loop env cname file ex chunks []
         (emit [ChunksGenerated (length chunks)] (emit [ExtractText path] st)) = (Inl e, st1)"
      "r = Inl e"
  | content chunks to_add s3 where "extract_text env path = Inr content" "strip content \<noteq> []"
      "split_text_semantically env (clean_text content) = Inr chunks"
      "chunk_loop env cname file ex chunks []
         (emit [ChunksGenerated (length chunks)] (emit [ExtractText path] st)) = (Inr to_add, s3)"
      "finish_file env cname file file_hash (length chunks) to_add s3 = (r, st1)"
  using assms
  by (auto simp: try_body_def Let_def split: sum.splits if_splits prod.splits)

lemma chunk_loop_file_hashes:
  "chunk_loop env cname file ex chunks to_add st = (r, st1) \<Longrightarrow> file_hashes st1 = file_hashes st"
  by (drule chunk_loop_frame [where c = undefined]) simp

lemma chunk_loop_index:
  "chunk_loop env cname file ex chunks to_add st = (r, st1) \<Longrightarrow> hexdigest_ok env
     \<Longrightarrow> fs st1 HASH_INDEX_FILE = fs st HASH_INDEX_FILE"
  by (drule chunk_loop_frame [where c = undefined]) simp

lemma chunk_loop_chroma:
  "chunk_loop env cname file ex chunks to_add st = (r, st1) \<Longrightarrow> chroma st c \<noteq> None
     \<Longrightarrow> chroma st1 c \<noteq> None"
  by (drule chunk_loop_frame [where c = c]) simp

lemma try_body_Inl:
  assumes "try_body env cname ex file path file_hash st = (Inl e, st1)"
  shows "file_hashes st1 = file_hashes st"
    and "hexdigest_ok env \<Longrightarrow> fs st1 HASH_INDEX_FILE = fs st HASH_INDEX_FILE"
proof -
  have "file_hashes st1 = file_hashes st
      \<and> (hexdigest_ok env \<longrightarrow> fs st1 HASH_INDEX_FILE = fs st HASH_INDEX_FILE)"
    using assms
  proof (induction rule: try_body_cases)
    case (loop_fail content chunks e')
    from chunk_loop_file_hashes [OF loop_fail(4)] chunk_loop_index [OF loop_fail(4)]
    show ?case by simp
  next
    case (finish content chunks to_add s3)
    from chunk_loop_file_hashes [OF finish(4)] chunk_loop_index [OF finish(4)]
      finish_file_Inl [OF finish(5)]
    show ?case by simp
  qed auto
  then show "file_hashes st1 = file_hashes st"
    and "hexdigest_ok env \<Longrightarrow> fs st1 HASH_INDEX_FILE = fs st HASH_INDEX_FILE"
    by simp_all
qed

lemma try_body_Inr:
  assumes "try_body env cname ex file path file_hash st = (Inr u, st1)"
  shows "st1 = emit [SkippedEmpty file] (emit [ExtractText path] st)
       \<or> (py_setitem (file_hashes st) file (JStr file_hash) = Inr (file_hashes st1)
          \<and> fs st1 HASH_INDEX_FILE = Some (Content (file_hashes st1))
          \<and> (\<exists>evs n. trace st1 = trace st @ evs @ [AddedChunks file n]))"
  using assms
proof (induction rule: try_body_cases)
  case (finish content chunks to_add s3)
  from chunk_loop_file_hashes [OF finish(4)] have fh: "file_hashes s3 = file_hashes st" by simp
  from chunk_loop_events [OF finish(4), where path = path]
  obtain evs where "trace s3 = trace st @ evs"
    by (auto simp: appended_def BATCH_SIZE_def)
  then have "\<exists>evs n. trace st1 = trace st @ evs @ [AddedChunks file n]"
    using finish(5)
    by (auto simp: finish_file_def Let_def add_batch_def split: sum.splits if_splits option.splits)
  with finish_file_Inr [OF finish(5)] fh show ?case
    by (simp add: save_hash_index_def)
qed auto

lemma try_body_chroma:
  assumes "try_body env cname ex file path file_hash st = (r, st1)" "chroma st c \<noteq> None"
  shows "chroma st1 c \<noteq> None"
  using assms
proof (induction rule: try_body_cases)
  case (loop_fail content chunks e)
  from chunk_loop_chroma [OF loop_fail(4)] loop_fail(6) show ?case by simp
next
  case (finish content chunks to_add s3)
  from chunk_loop_chroma [OF finish(4)] finish(6) have "chroma s3 c \<noteq> None" by simp
  with finish(5) show ?case by (rule finish_file_chroma)
qed auto

lemma run_ev_mono: "run_ev env folder ex F ev \<Longrightarrow> F \<subseteq> G \<Longrightarrow> run_ev env folder ex G ev"
  by (cases ev) (auto simp: run_ev_def)

lemma run_ev_file: "file_ev env ex f (path_join folder f) ev \<Longrightarrow> f \<in> F \<Longrightarrow> run_ev env folder ex F ev"
  by (cases ev) (auto simp: run_ev_def)

lemma appended_split:
  assumes "appended Q st st2" "appended R st st1" "appended R' st1 st2"
  shows "appended Q st st1 \<and> appended Q st1 st2"
proof -
  from assms(1) obtain evs where e: "trace st2 = trace st @ evs" "list_all Q evs"
    by (auto simp: appended_def)
  from assms(2) obtain e1 where e1: "trace st1 = trace st @ e1" by (auto simp: appended_def)
  from assms(3) obtain e2 where e2: "trace st2 = trace st1 @ e2" by (auto simp: appended_def)
  from e(1) e1 e2 have "evs = e1 @ e2" by simp
  with e(2) have "list_all Q e1" "list_all Q e2" by simp_all
  with e1 e2 show ?thesis by (auto simp: appended_def)
qed

lemma process_file_events:
  "appended (file_ev env ex file path) st (process_file env cname ex file path file_hash st)"
proof -
  obtain r s1 where t: "try_body env cname ex file path file_hash st = (r, s1)"
    by (cases "try_body env cname ex file path file_hash st")
  have a: "appended (file_ev env ex file path) st s1" by (rule try_body_events [OF t])
  show ?thesis
  proof (cases r)
    case (Inl e)
    have "appended (file_ev env ex file path) s1 (emit [ErrorProcessing file e] s1)"
      by (rule appended_emit) simp
    with a have "appended (file_ev env ex file path) st (emit [ErrorProcessing file e] s1)"
      by (rule appended_trans)
    with t Inl show ?thesis by (simp add: process_file_def)
  next
    case (Inr u)
    with t a show ?thesis by (simp add: process_file_def)
  qed
qed

lemma process_file_chroma:
  "chroma st c \<noteq> None \<Longrightarrow> chroma (process_file env cname ex file path file_hash st) c \<noteq> None"
proof -
  assume c: "chroma st c \<noteq> None"
  obtain r s1 where t: "try_body env cname ex file path file_hash st = (r, s1)"
    by (cases "try_body env cname ex file path file_hash st")
  from try_body_chroma [OF t c] t show ?thesis
    by (cases r) (simp_all add: process_file_def)
qed

lemma process_file_outcome:
  obtains (unchanged) "file_hashes (process_file env cname ex file path file_hash st) = file_hashes st"
      "hexdigest_ok env \<Longrightarrow>
         fs (process_file env cname ex file path file_hash st) HASH_INDEX_FILE = fs st HASH_INDEX_FILE"
      "\<exists>evs. trace (process_file env cname ex file path file_hash st) = trace st @ evs
             \<and> \<not> list_all (\<lambda>ev. \<not> is_failure ev) evs"
  | (committed) "py_setitem (file_hashes st) file (JStr file_hash)
         = Inr (file_hashes (process_file env cname ex file path file_hash st))"
      "fs (process_file env cname ex file path file_hash st) HASH_INDEX_FILE
         = Some (Content (file_hashes (process_file env cname ex file path file_hash st)))"
proof -
  obtain r s1 where t: "try_body env cname ex file path file_hash st = (r, s1)"
    by (cases "try_body env cname ex file path file_hash st")
  show ?thesis
  proof (cases r)
    case (Inl e)
    then have p: "process_file env cname ex file path file_hash st = emit [ErrorProcessing file e] s1"
      using t by (simp add: process_file_def)
    from try_body_events [OF t] obtain evs where "trace s1 = trace st @ evs"
      by (auto simp: appended_def)
    then have "trace (emit [ErrorProcessing file e] s1) = trace st @ (evs @ [ErrorProcessing file e])
        \<and> \<not> list_all (\<lambda>ev. \<not> is_failure ev) (evs @ [ErrorProcessing file e])"
      by (simp add: is_failure_def)
    then have "\<exists>evs. trace (emit [ErrorProcessing file e] s1) = trace st @ evs
        \<and> \<not> list_all (\<lambda>ev. \<not> is_failure ev) evs"
      by blast
    with try_body_Inl [OF t [unfolded Inl]] p show ?thesis
      by (intro unchanged) simp_all
  next
    case (Inr u)
    then have p: "process_file env cname ex file path file_hash st = s1"
      using t by (simp add: process_file_def)
    from try_body_Inr [OF t [unfolded Inr]] show ?thesis
    proof
      assume s: "s1 = emit [SkippedEmpty file] (emit [ExtractText path] st)"
      have "trace s1 = trace st @ [ExtractText path, SkippedEmpty file]
          \<and> \<not> list_all (\<lambda>ev. \<not> is_failure ev) [ExtractText path, SkippedEmpty file]"
        by (simp add: s is_failure_def)
      then have "\<exists>evs. trace s1 = trace st @ evs \<and> \<not> list_all (\<lambda>ev. \<not> is_failure ev) evs"
        by blast
      with s p show ?thesis by (intro unchanged) simp_all
    next
      assume "py_setitem (file_hashes st) file (JStr file_hash) = Inr (file_hashes s1)
          \<and> fs s1 HASH_INDEX_FILE = Some (Content (file_hashes s1))
          \<and> (\<exists>evs n. trace s1 = trace st @ evs @ [AddedChunks file n])"
      with p show ?thesis by (intro committed) simp_all
    qed
  qed
qed

lemma process_file_sync:
  assumes "hexdigest_ok env" "file_hashes st = load_hash_index (fs st)"
  shows "file_hashes (process_file env cname ex file path file_hash st)
       = load_hash_index (fs (process_file env cname ex file path file_hash st))"
proof (cases rule: process_file_outcome [of env cname ex "file" path file_hash st])
  case unchanged
  from unchanged(2) [OF assms(1)] have "load_hash_index (fs (process_file env cname ex file path file_hash st))
      = load_hash_index (fs st)" by (rule load_hash_index_cong)
  with unchanged(1) assms(2) show ?thesis by simp
next
  case committed
  then show ?thesis by (simp add: load_hash_index_def)
qed

lemma files_loop_cases [consumes 1, case_names hash_fail get_fail skip process]:
  assumes "files_loop env cname folder ex (f # files) st = (r, st')"
  obtains
    e where "hash_file env (path_join folder f) = Inl e" "r = Inl e"
      "st' = emit [ReadBytes (path_join folder f)] st"
  | d e where "hash_file env (path_join folder f) = Inr d" "py_get (file_hashes st) f = Inl e"
      "r = Inl e" "st' = emit [ReadBytes (path_join folder f)] st"
  | d where "hash_file env (path_join folder f) = Inr d"
      "py_get (file_hashes st) f = Inr (JStr d)"
      "files_loop env cname folder ex files
         (emit [SkippedUnchanged f] (emit [ReadBytes (path_join folder f)] st)) = (r, st')"
  | d h where "hash_file env (path_join folder f) = Inr d"
      "py_get (file_hashes st) f = Inr h" "h \<noteq> JStr d"
      "files_loop env cname folder ex files
         (process_file env cname ex f (path_join folder f) d
            (emit [ProcessingFile f] (emit [ReadBytes (path_join folder f)] st))) = (r, st')"
  using assms
  by (auto simp: Let_def split: sum.splits if_splits)

lemma files_loop_events:
  "files_loop env cname folder ex files st = (r, st')
     \<Longrightarrow> appended (run_ev env folder ex (set files)) st st'"
proof (induction files arbitrary: st)
  case Nil
  then show ?case by simp
next
  case (Cons f files)
  let ?Q = "run_ev env folder ex (set (f # files))"
  let ?p = "path_join folder f"
  have rb: "appended ?Q st (emit [ReadBytes ?p] st)"
    by (rule appended_emit) (simp add: run_ev_def)
  have rest: "appended ?Q s st'"
    if "files_loop env cname folder ex files s = (r, st')" for s
    using Cons.IH [OF that] by (rule appended_mono) (auto intro: run_ev_mono)
  from Cons.prems show ?case
  proof (cases rule: files_loop_cases)
    case (hash_fail e)
    with rb show ?thesis by simp
  next
    case (get_fail d e)
    with rb show ?thesis by simp
  next
    case (skip d)
    have "appended ?Q (emit [ReadBytes ?p] st) (emit [SkippedUnchanged f] (emit [ReadBytes ?p] st))"
      by (rule appended_emit) (simp add: run_ev_def)
    with rb rest [OF skip(3)] show ?thesis by (blast intro: appended_trans)
  next
    case (process d h)
    let ?s1 = "emit [ProcessingFile f] (emit [ReadBytes ?p] st)"
    have a: "appended ?Q (emit [ReadBytes ?p] st) ?s1"
      by (rule appended_emit) (simp add: run_ev_def)
    have "appended (file_ev env ex f ?p) ?s1 (process_file env cname ex f ?p d ?s1)"
      by (rule process_file_events)
    then have b: "appended ?Q ?s1 (process_file env cname ex f ?p d ?s1)"
      by (rule appended_mono) (auto intro: run_ev_file)
    from rb a b rest [OF process(4)] show ?thesis by (blast intro: appended_trans)
  qed
qed

lemma files_loop_sync:
  "files_loop env cname folder ex files st = (r, st') \<Longrightarrow> hexdigest_ok env
     \<Longrightarrow> file_hashes st = load_hash_index (fs st)
     \<Longrightarrow> file_hashes st' = load_hash_index (fs st')"
proof (induction files arbitrary: st)
  case Nil
  then show ?case by simp
next
  case (Cons f files)
  from Cons.prems(1) show ?case
  proof (cases rule: files_loop_cases)
    case (skip d)
    show ?thesis by (rule Cons.IH [OF skip(3) Cons.prems(2)]) (simp add: Cons.prems(3))
  next
    case (process d h)
    show ?thesis
      by (rule Cons.IH [OF process(4) Cons.prems(2)], rule process_file_sync [OF Cons.prems(2)])
         (simp add: Cons.prems(3))
  qed (simp_all add: Cons.prems(3))
qed

lemma files_loop_chroma:
  "files_loop env cname folder ex files st = (r, st') \<Longrightarrow> chroma st c \<noteq> None
     \<Longrightarrow> chroma st' c \<noteq> None"
proof (induction files arbitrary: st)
  case Nil
  then show ?case by simp
next
  case (Cons f files)
  from Cons.prems(1) show ?case
  proof (cases rule: files_loop_cases)
    case (skip d)
    show ?thesis by (rule Cons.IH [OF skip(3)]) (simp add: Cons.prems(2))
  next
    case (process d h)
    show ?thesis
      by (rule Cons.IH [OF process(4)], rule process_file_chroma) (simp add: Cons.prems(2))
  qed (simp_all add: Cons.prems(2))
qed

text \<open>An entry of the index is as it was, or it is the digest of that file.\<close>

lemma files_loop_entry:
  "files_loop env cname folder ex files st = (r, st')
     \<Longrightarrow> py_get (file_hashes st') k = py_get (file_hashes st) k
       \<or> (k \<in> set files \<and> (\<exists>d. hash_file env (path_join folder k) = Inr d
             \<and> py_get (file_hashes st') k = Inr (JStr d)))"
proof (induction files arbitrary: st)
  case Nil
  then show ?case by simp
next
  case (Cons f files)
  from Cons.prems(1) show ?case
  proof (cases rule: files_loop_cases)
    case (skip d)
    from Cons.IH [OF skip(3)] show ?thesis by auto
  next
    case (process d h)
    let ?s1 = "emit [ProcessingFile f] (emit [ReadBytes (path_join folder f)] st)"
    let ?s2 = "process_file env cname ex f (path_join folder f) d ?s1"
    have step: "py_get (file_hashes ?s2) k = py_get (file_hashes st) k
        \<or> (k = f \<and> py_get (file_hashes ?s2) k = Inr (JStr d))"
    proof (cases rule: process_file_outcome [of env cname ex f "path_join folder f" d ?s1])
      case unchanged
      then show ?thesis by simp
    next
      case committed
      from py_get_setitem [OF committed(1), of k] show ?thesis by (auto split: if_splits)
    qed
    from Cons.IH [OF process(4), of ] step process(1) show ?thesis by auto
  qed simp_all
qed

lemma files_loop_recorded:
  "files_loop env cname folder ex files st = (Inr u, st')
     \<Longrightarrow> appended (\<lambda>ev. \<not> is_failure ev) st st'
     \<Longrightarrow> f \<in> set files
     \<Longrightarrow> \<exists>d. hash_file env (path_join folder f) = Inr d
            \<and> py_get (file_hashes st') f = Inr (JStr d)"
proof (induction files arbitrary: st)
  case Nil
  then show ?case by simp
next
  case (Cons g files)
  let ?Q = "\<lambda>ev. \<not> is_failure ev"
  let ?p = "path_join folder g"
  from Cons.prems(1) show ?case
  proof (cases rule: files_loop_cases)
    case (skip d)
    let ?s1 = "emit [SkippedUnchanged g] (emit [ReadBytes ?p] st)"
    have "appended (\<lambda>ev. True) st ?s1" by (simp add: appended_def)
    from appended_split [OF Cons.prems(2) this files_loop_events [OF skip(3)]]
    have q: "appended ?Q ?s1 st'" by simp
    show ?thesis
    proof (cases "f = g")
      case True
      from files_loop_entry [OF skip(3), of g] skip(1,2) True show ?thesis by auto
    next
      case False
      with Cons.prems(3) have "f \<in> set files" by simp
      from Cons.IH [OF skip(3) q this] show ?thesis .
    qed
  next
    case (process d h)
    let ?s1 = "emit [ProcessingFile g] (emit [ReadBytes ?p] st)"
    let ?s2 = "process_file env cname ex g ?p d ?s1"
    have g1: "appended (\<lambda>ev. True) st ?s1" by (simp add: appended_def)
    have g2: "appended (file_ev env ex g ?p) ?s1 ?s2" by (rule process_file_events)
    have g3: "appended (\<lambda>ev. True) st ?s2"
      by (rule appended_trans [OF g1]) (rule appended_mono [OF g2], simp)
    from appended_split [OF Cons.prems(2) g3 files_loop_events [OF process(4)]]
    have q2: "appended ?Q st ?s2" and q: "appended ?Q ?s2 st'" by simp_all
    from appended_split [OF q2 g1 g2] have q1: "appended ?Q ?s1 ?s2" by simp
    have rec: "py_get (file_hashes ?s2) g = Inr (JStr d)"
    proof (cases rule: process_file_outcome [of env cname ex g ?p d ?s1])
      case unchanged
      from unchanged(3) q1 show ?thesis by (auto simp: appended_def)
    next
      case committed
      from py_get_setitem [OF committed(1), of g] show ?thesis by simp
    qed
    show ?thesis
    proof (cases "f = g")
      case True
      from files_loop_entry [OF process(4), of g] process(1) rec True show ?thesis by auto
    next
      case False
      with Cons.prems(3) have "f \<in> set files" by simp
      from Cons.IH [OF process(4) q this] show ?thesis .
    qed
  qed simp_all
qed

lemma emit_emit: "emit b (emit a st) = emit (a @ b) st"
  by (simp add: emit_def)

lemma files_loop_all_skipped:
  "(\<And>f. f \<in> set files \<Longrightarrow> \<exists>d. hash_file env (path_join folder f) = Inr d
            \<and> py_get (file_hashes st) f = Inr (JStr d))
     \<Longrightarrow> files_loop env cname folder ex files st
         = (Inr (), emit (concat (map (\<lambda>f. [ReadBytes (path_join folder f), SkippedUnchanged f]) files)) st)"
proof (induction files arbitrary: st)
  case Nil
  then show ?case by (simp add: emit_def)
next
  case (Cons f files)
  from Cons.prems [of f] obtain d where d: "hash_file env (path_join folder f) = Inr d"
    "py_get (file_hashes st) f = Inr (JStr d)" by auto
  let ?s1 = "emit [SkippedUnchanged f] (emit [ReadBytes (path_join folder f)] st)"
  have "files_loop env cname folder ex files ?s1
      = (Inr (), emit (concat (map (\<lambda>f. [ReadBytes (path_join folder f), SkippedUnchanged f]) files)) ?s1)"
    by (rule Cons.IH) (use Cons.prems in simp)
  with d show ?case by (simp add: emit_emit)
qed

lemma process_pdfs_cases [consumes 1, case_names listdir_fail no_pdf no_collection loop_fail loop_done]:
  assumes "process_pdfs env cname folder st = (r, st')"
  obtains
    e where "listdir env folder = Inl e" "r = Inl e" "st' = st"
  | "pdf_files env folder = []" "r = Inr ()" "st' = emit [NoPdfFound] st"
  | e where "pdf_files env folder \<noteq> []" "chroma st cname = None" "r = Inl e"
      "st' = st\<lparr>file_hashes := load_hash_index (fs st)\<rparr>"
  | recs e where "pdf_files env folder \<noteq> []" "chroma st cname = Some recs"
      "files_loop env cname folder (set (map rec_id recs)) (pdf_files env folder)
         (st\<lparr>file_hashes := load_hash_index (fs st), total_added := 0\<rparr>) = (Inl e, st')"
      "r = Inl e"
  | recs s2 where "pdf_files env folder \<noteq> []" "chroma st cname = Some recs"
      "files_loop env cname folder (set (map rec_id recs)) (pdf_files env folder)
         (st\<lparr>file_hashes := load_hash_index (fs st), total_added := 0\<rparr>) = (Inr (), s2)"
      "r = Inr ()" "st' = emit [TotalAdded (total_added s2)] s2"
proof (cases "listdir env folder")
  case (Inl e)
  with assms that(1) show ?thesis by (simp add: process_pdfs_def)
next
  case (Inr entries)
  then have pf: "pdf_files env folder = filter is_pdf entries" by (simp add: pdf_files_def)
  show ?thesis
  proof (cases "filter is_pdf entries = []")
    case True
    with assms Inr pf that(2) show ?thesis by (simp add: process_pdfs_def)
  next
    case False
    note ne = this
    show ?thesis
    proof (cases "chroma st cname")
      case None
      with assms Inr pf ne that(3) show ?thesis by (auto simp: process_pdfs_def)
    next
      case (Some recs)
      have ex: "(if length recs \<noteq> 0 then set (map rec_id recs) else {}) = set (map rec_id recs)"
        by simp
      obtain r2 s2 where l: "files_loop env cname folder (set (map rec_id recs)) (filter is_pdf entries)
         (st\<lparr>file_hashes := load_hash_index (fs st), total_added := 0\<rparr>) = (r2, s2)"
        by (cases "files_loop env cname folder (set (map rec_id recs)) (filter is_pdf entries)
         (st\<lparr>file_hashes := load_hash_index (fs st), total_added := 0\<rparr>)")
      show ?thesis
      proof (cases r2)
        case (Inl e)
        with assms Inr pf ne Some l ex that(4) [of recs e] show ?thesis
          by (simp add: process_pdfs_def Let_def del: set_map)
      next
        case r2: (Inr u)
        with assms Inr pf ne Some l ex that(5) [of recs s2] show ?thesis
          by (simp add: process_pdfs_def Let_def del: set_map)
      qed
    qed
  qed
qed

lemma process_pdfs_events:
  assumes "process_pdfs env cname folder st = (r, st')"
  shows "appended (\<lambda>ev. ev = NoPdfFound \<or> (\<exists>n. ev = TotalAdded n)
            \<or> run_ev env folder (snapshot st cname) (set (pdf_files env folder)) ev) st st'"
    (is "appended ?Q st st'")
  using assms
proof (cases rule: process_pdfs_cases)
  case (listdir_fail e)
  then show ?thesis by simp
next
  case no_pdf
  then show ?thesis by (simp add: appended_def)
next
  case (no_collection e)
  then show ?thesis by (simp add: appended_def)
next
  case (loop_fail recs e)
  let ?s0 = "st\<lparr>file_hashes := load_hash_index (fs st), total_added := 0\<rparr>"
  from files_loop_events [OF loop_fail(3)] loop_fail(2)
  have "appended ?Q ?s0 st'" by (auto simp: snapshot_def elim: appended_mono)
  then show ?thesis by (simp add: appended_def)
next
  case (loop_done recs s2)
  let ?s0 = "st\<lparr>file_hashes := load_hash_index (fs st), total_added := 0\<rparr>"
  from files_loop_events [OF loop_done(3)] loop_done(2)
  have "appended ?Q ?s0 s2" by (auto simp: snapshot_def elim: appended_mono)
  then show ?thesis using loop_done(5) by (auto simp: appended_def)
qed

lemma run_ev_ids:
  "run_ev env folder ex F ev \<Longrightarrow> ids_are_digests env ev"
  by (cases ev) (auto simp: run_ev_def ids_are_digests_def rec_ok_def hash_id_def list_all_iff)


lemma run_ev_pdf_only:
  "run_ev env folder ex F ev \<Longrightarrow> pdf_only env folder F ev"
  by (cases ev) (auto simp: run_ev_def pdf_only_def rec_ok_def list_all_iff)

lemma process_pdfs_appended:
  assumes "process_pdfs env cname folder st = (r, st')"
    and "\<And>ev. run_ev env folder (snapshot st cname) (set (pdf_files env folder)) ev \<Longrightarrow> Q ev"
    and "Q NoPdfFound" "\<And>n. Q (TotalAdded n)"
  shows "appended Q st st'"
  by (rule appended_mono [OF process_pdfs_events [OF assms(1)]]) (use assms(2-4) in blast)

lemma pdf_files_is_pdf: "k \<in> set (pdf_files env folder) \<Longrightarrow> is_pdf k"
  by (auto simp: pdf_files_def split: sum.splits)

lemma process_pdfs_index_frame:
  assumes "process_pdfs env cname folder st = (r, st')" "hexdigest_ok env" "\<not> is_pdf k"
  shows "py_get (load_hash_index (fs st')) k = py_get (load_hash_index (fs st)) k"
proof -
  let ?s0 = "st\<lparr>file_hashes := load_hash_index (fs st), total_added := 0\<rparr>"
  have loop: "py_get (load_hash_index (fs s2)) k = py_get (load_hash_index (fs st)) k"
    if l: "files_loop env cname folder ex (pdf_files env folder) ?s0 = (r2, s2)" for ex r2 s2
  proof -
    have "file_hashes s2 = load_hash_index (fs s2)"
      by (rule files_loop_sync [OF l assms(2)]) simp
    moreover from files_loop_entry [OF l, of k] assms(3)
    have "py_get (file_hashes s2) k = py_get (file_hashes ?s0) k"
      by (auto dest: pdf_files_is_pdf)
    ultimately show ?thesis by simp
  qed
  from assms(1) show ?thesis
  proof (cases rule: process_pdfs_cases)
    case (loop_fail recs e)
    from loop [OF loop_fail(3)] show ?thesis .
  next
    case (loop_done recs s2)
    from loop [OF loop_done(3)] loop_done(5) show ?thesis by simp
  qed simp_all
qed



lemma process_pdfs_listdir:
  "process_pdfs env cname folder st = (Inr u, st') \<Longrightarrow> \<exists>entries. listdir env folder = Inr entries"
  by (cases "listdir env folder") (auto simp: process_pdfs_def)

lemma process_pdfs_all_skipped:
  assumes "pdf_files env folder \<noteq> []" "chroma st cname = Some recs"
    and "\<And>f. f \<in> set (pdf_files env folder) \<Longrightarrow>
           \<exists>d. hash_file env (path_join folder f) = Inr d
             \<and> py_get (load_hash_index (fs st)) f = Inr (JStr d)"
  shows "process_pdfs env cname folder st =
     (Inr (), emit (skip_events folder (pdf_files env folder) @ [TotalAdded 0])
                (st\<lparr>file_hashes := load_hash_index (fs st), total_added := 0\<rparr>))"
proof -
  let ?s0 = "st\<lparr>file_hashes := load_hash_index (fs st), total_added := 0\<rparr>"
  from assms(1) obtain entries where l: "listdir env folder = Inr entries"
    and pf: "pdf_files env folder = filter is_pdf entries"
    by (cases "listdir env folder") (auto simp: pdf_files_def)
  have "files_loop env cname folder ex (pdf_files env folder) ?s0
      = (Inr (), emit (skip_events folder (pdf_files env folder)) ?s0)" for ex
    unfolding skip_events_def by (rule files_loop_all_skipped) (use assms(3) in simp)
  then show ?thesis
    using l pf assms(1,2)
    by (simp add: process_pdfs_def Let_def emit_emit del: set_map)
qed

lemma keeps_ids_emit [simp]: "keeps_ids cname recs (emit evs st) = keeps_ids cname recs st"
  by (simp add: keeps_ids_def)

lemma keeps_ids_cong: "chroma st' = chroma st \<Longrightarrow> keeps_ids cname recs st' = keeps_ids cname recs st"
  by (simp add: keeps_ids_def)















section \<open>The properties claimed of the loader\<close>

subsection \<open>C1: the hash of a file is committed after its batches\<close>

text \<open>
  Claim C1 says that the index entry of a file is written only after all its batch
  writes succeeded, and never when one failed. The code does not keep this: with a store
  that refuses the batch, \<^verbatim>\<open>_add_batch\<close> prints the error and returns, and the hash of
  the file is written to the index all the same. The collection is still empty, the
  index says the file is done, and a later run with a working store skips the file.
\<close>

theorem C1_commit_despite_failed_write:
  "trace (snd (load_pdfs failing_env ''./laws'' st0)) =
     [CreatingCollection, ReadBytes ''./laws/a.PDF'', ProcessingFile ''a.PDF'',
      ExtractText ''./laws/a.PDF'', ChunksGenerated 1,
      CacheRead ''./cache/alpha betaa.PDF0000000000000000000000000.json'',
      Encode ''alpha beta'',
      CacheWrite ''./cache/alpha betaa.PDF0000000000000000000000000.json''
        (JList [JNum (1 / 2), JNum (1 / 4)]),
      CollAdd [toy_record], BatchInsertError (Exception ''store down''),
      IndexWrite (JObj [(''a.PDF'', JStr ''%PDF ./laws/a.PDF00000000000000000000000'')]),
      AddedChunks ''a.PDF'' 1, TotalAdded 1, LoadComplete]
   \<and> chroma (snd (load_pdfs failing_env ''./laws'' st0)) COLLECTION_NAME = Some []
   \<and> fs (snd (load_pdfs failing_env ''./laws'' st0)) HASH_INDEX_FILE =
       Some (Content (JObj [(''a.PDF'', JStr ''%PDF ./laws/a.PDF00000000000000000000000'')]))
   \<and> chroma (snd (load_pdfs toy_env ''./laws'' (snd (load_pdfs failing_env ''./laws'' st0))))
       COLLECTION_NAME = Some []"
  by code_simp

subsection \<open>C2: reload after a load\<close>

text \<open>
  Claim C2 says that \<^verbatim>\<open>reload_pdfs\<close> inserts the chunks of every file of the folder
  into the fresh collection, whatever the index holds. The code does not: the index is
  neither cleared nor ignored, so after a load of the folder a reload deletes the
  collection, creates an empty one, skips the unchanged file and leaves the collection
  empty.
\<close>

theorem C2_reload_leaves_collection_empty:
  "chroma (snd (load_pdfs toy_env ''./laws'' st0)) COLLECTION_NAME = Some [toy_record]
   \<and> chroma (snd (reload_pdfs toy_env ''./laws'' (snd (load_pdfs toy_env ''./laws'' st0))))
       COLLECTION_NAME = Some []
   \<and> drop (length (trace (snd (load_pdfs toy_env ''./laws'' st0))))
       (trace (snd (reload_pdfs toy_env ''./laws'' (snd (load_pdfs toy_env ''./laws'' st0))))) =
       [OldDeleted, ReadBytes ''./laws/a.PDF'', SkippedUnchanged ''a.PDF'', TotalAdded 0, Rebuilt]"
  by code_simp

subsection \<open>C3: ids of the start-of-run snapshot are skipped\<close>



subsection \<open>C4: a second load of an unchanged folder adds nothing\<close>

text \<open>
  Claim C4. Ingestion is idempotent. Take a load that returned and in which no file was
  reported as failed or as empty: every PDF of the folder was either skipped as
  unchanged or committed. With the folder and the environment as they were, the next
  load returns as well, reads each PDF once to hash it and skips it by comparing digests,
  hands nothing to the store, writes no file, and reports a total of 0 new chunks (with
  no PDF in the folder it reports that there is none).
\<close>

theorem C4_second_run_adds_nothing:
  assumes "hexdigest_ok env"
    and "load_pdfs env folder st = (Inr (), st1)"
    and "trace st1 = trace st @ evs" and "list_all (\<lambda>ev. \<not> is_failure ev) evs"
  shows "\<exists>recs. chroma st1 COLLECTION_NAME = Some recs
       \<and> load_pdfs env folder st1 =
           (Inr (),
            emit (UsingExisting (length recs) #
                  (if pdf_files env folder = [] then [NoPdfFound]
                   else skip_events folder (pdf_files env folder) @ [TotalAdded 0])
                  @ [LoadComplete])
              (if pdf_files env folder = [] then st1
               else st1\<lparr>file_hashes := load_hash_index (fs st1), total_added := 0\<rparr>))"
proof -
  let ?C = COLLECTION_NAME
  let ?Q = "\<lambda>ev. \<not> is_failure ev"
  define e0 where "e0 = (case chroma st ?C of Some recs \<Rightarrow> UsingExisting (length recs)
                         | None \<Rightarrow> CreatingCollection)"
  define sa where "sa = (case chroma st ?C of
                           Some recs \<Rightarrow> emit [UsingExisting (length recs)] st
                         | None \<Rightarrow> (emit [CreatingCollection] st)\<lparr>chroma := (chroma st)(?C \<mapsto> [])\<rparr>)"
  have sa: "chroma sa ?C \<noteq> None" "trace sa = trace st @ [e0]" "fs sa = fs st"
    by (simp_all add: sa_def e0_def split: option.splits)
  obtain r sb where p1: "process_pdfs env ?C folder sa = (r, sb)"
    by (cases "process_pdfs env ?C folder sa")
  from assms(2) p1 have r: "r = Inr ()" and st1: "st1 = emit [LoadComplete] sb"
    by (auto simp: load_pdfs_def sa_def split: sum.splits)
  have run2: "load_pdfs env folder st1 = (Inr (), emit [LoadComplete] s')"
    if "chroma st1 ?C = Some recs"
      "process_pdfs env ?C folder (emit [UsingExisting (length recs)] st1) = (Inr (), s')"
    for recs s'
    using that by (simp add: load_pdfs_def)
  from p1 show ?thesis
  proof (cases rule: process_pdfs_cases)
    case (listdir_fail e)
    with r show ?thesis by simp
  next
    case no_pdf
    from process_pdfs_listdir [OF p1 [unfolded r]] obtain entries
      where l: "listdir env folder = Inr entries" by blast
    with no_pdf(1) have ne: "filter is_pdf entries = []" by (simp add: pdf_files_def)
    from sa(1) no_pdf(3) st1 obtain recs where c: "chroma st1 ?C = Some recs" by auto
    have "process_pdfs env ?C folder (emit [UsingExisting (length recs)] st1)
        = (Inr (), emit [NoPdfFound] (emit [UsingExisting (length recs)] st1))"
      using l ne by (simp add: process_pdfs_def)
    from run2 [OF c this] c no_pdf(1) show ?thesis by (simp add: emit_emit)
  next
    case (no_collection e)
    with r show ?thesis by simp
  next
    case (loop_fail recs e)
    with r show ?thesis by simp
  next
    case (loop_done recs0 s2)
    let ?files = "pdf_files env folder"
    let ?s0 = "sa\<lparr>file_hashes := load_hash_index (fs sa), total_added := 0\<rparr>"
    note l = loop_done(3)
    from files_loop_events [OF l] obtain ev2 where ev2: "trace s2 = trace ?s0 @ ev2"
      by (auto simp: appended_def)
    have "trace st1 = trace st @ (e0 # ev2 @ [TotalAdded (total_added s2), LoadComplete])"
      using st1 loop_done(5) ev2 sa(2) by simp
    with assms(3) have "evs = e0 # ev2 @ [TotalAdded (total_added s2), LoadComplete]" by simp
    with assms(4) have "list_all ?Q ev2" by simp
    with ev2 have q: "appended ?Q ?s0 s2" by (auto simp: appended_def)
    have sync: "file_hashes s2 = load_hash_index (fs s2)"
      by (rule files_loop_sync [OF l assms(1)]) simp
    have "chroma s2 ?C \<noteq> None"
      by (rule files_loop_chroma [OF l]) (simp add: sa(1))
    with st1 loop_done(5) obtain recs where c: "chroma st1 ?C = Some recs" by auto
    have fs1: "fs st1 = fs s2" using st1 loop_done(5) by simp
    let ?su = "emit [UsingExisting (length recs)] st1"
    have "process_pdfs env ?C folder ?su =
        (Inr (), emit (skip_events folder ?files @ [TotalAdded 0])
                   (?su\<lparr>file_hashes := load_hash_index (fs ?su), total_added := 0\<rparr>))"
    proof (rule process_pdfs_all_skipped [OF loop_done(1)])
      show "chroma ?su ?C = Some recs" using c by simp
      show "\<exists>d. hash_file env (path_join folder f) = Inr d
              \<and> py_get (load_hash_index (fs ?su)) f = Inr (JStr d)"
        if "f \<in> set ?files" for f
        using files_loop_recorded [OF l q that] sync fs1 by simp
    qed
    from run2 [OF c this] c loop_done(1) show ?thesis
      by (simp add: emit_emit emit_def)
  qed
qed

theorem C4_witness:
  "hexdigest_ok toy_env
   \<and> fst (load_pdfs toy_env ''./laws'' st0) = Inr ()
   \<and> list_all (\<lambda>ev. \<not> is_failure ev) (trace (snd (load_pdfs toy_env ''./laws'' st0)))
   \<and> chroma (snd (load_pdfs toy_env ''./laws'' st0)) COLLECTION_NAME = Some [toy_record]
   \<and> fst (load_pdfs toy_env ''./laws'' (snd (load_pdfs toy_env ''./laws'' st0))) = Inr ()
   \<and> trace (snd (load_pdfs toy_env ''./laws'' (snd (load_pdfs toy_env ''./laws'' st0))))
       = trace (snd (load_pdfs toy_env ''./laws'' st0))
         @ [UsingExisting 1, ReadBytes ''./laws/a.PDF'', SkippedUnchanged ''a.PDF'',
            TotalAdded 0, LoadComplete]
   \<and> chroma (snd (load_pdfs toy_env ''./laws'' (snd (load_pdfs toy_env ''./laws'' st0))))
       = chroma (snd (load_pdfs toy_env ''./laws'' st0))
   \<and> fs (snd (load_pdfs toy_env ''./laws'' (snd (load_pdfs toy_env ''./laws'' st0))))
       = fs (snd (load_pdfs toy_env ''./laws'' st0))"
proof -
  let ?run1 = "load_pdfs toy_env ''./laws'' st0"
  let ?run2 = "load_pdfs toy_env ''./laws'' (snd ?run1)"
  have h1: "fst ?run1 = Inr ()" by code_simp
  then have h2: "?run1 = (Inr (), snd ?run1)" by (simp add: prod_eq_iff)
  have h3: "trace (snd ?run1) = trace st0 @ trace (snd ?run1)" by (simp add: st0_def)
  have h4: "list_all (\<lambda>ev. \<not> is_failure ev) (trace (snd ?run1))" by code_simp
  have pf: "pdf_files toy_env ''./laws'' = [''a.PDF'']" by code_simp
  have c: "chroma (snd ?run1) COLLECTION_NAME = Some [toy_record]" by code_simp
  from C4_second_run_adds_nothing [OF toy_hexdigest_ok h2 h3 h4] c
  have "?run2 =
     (Inr (),
      emit (UsingExisting (length [toy_record]) #
            (if pdf_files toy_env ''./laws'' = [] then [NoPdfFound]
             else skip_events ''./laws'' (pdf_files toy_env ''./laws'') @ [TotalAdded 0])
            @ [LoadComplete])
        (if pdf_files toy_env ''./laws'' = [] then snd ?run1
         else (snd ?run1)\<lparr>file_hashes := load_hash_index (fs (snd ?run1)), total_added := 0\<rparr>))"
    by auto
  then have r2: "?run2 =
     (Inr (),
      emit [UsingExisting 1, ReadBytes ''./laws/a.PDF'', SkippedUnchanged ''a.PDF'',
            TotalAdded 0, LoadComplete]
        ((snd ?run1)\<lparr>file_hashes := load_hash_index (fs (snd ?run1)), total_added := 0\<rparr>))"
    by (simp add: pf skip_events_def path_join_def)
  have a: "fst ?run2 = Inr ()" by (simp add: r2)
  have b: "trace (snd ?run2) = trace (snd ?run1)
         @ [UsingExisting 1, ReadBytes ''./laws/a.PDF'', SkippedUnchanged ''a.PDF'',
            TotalAdded 0, LoadComplete]" by (simp add: r2)
  have d: "chroma (snd ?run2) = chroma (snd ?run1)" by (simp add: r2)
  have e: "fs (snd ?run2) = fs (snd ?run1)" by (simp add: r2)
  from toy_hexdigest_ok h1 h4 c a b d e show ?thesis by blast
qed

subsection \<open>C5: an error inside the try block aborts that file only\<close>

text \<open>
  Claim C5. When extracting, splitting or processing the chunks of a file raises, the
  handler prints the error and the loop goes on with the next file: the run does not
  fail. The in-memory index and the index file are what they were before the file was
  touched; the entry a later run will load for the file is the one that made this run
  process it, so the later run takes the file up again.
\<close>

theorem C5_error_aborts_file_only:
  assumes "hexdigest_ok env"
    and "hash_file env (path_join folder file) = Inr file_hash"
    and "py_get (file_hashes st) file = Inr h" and "h \<noteq> JStr file_hash"
    and "try_body env cname ex file (path_join folder file) file_hash
           (emit [ReadBytes (path_join folder file), ProcessingFile file] st) = (Inl e, st1)"
  shows "files_loop env cname folder ex (file # files) st =
           files_loop env cname folder ex files (emit [ErrorProcessing file e] st1)
       \<and> file_hashes (emit [ErrorProcessing file e] st1) = file_hashes st
       \<and> fs (emit [ErrorProcessing file e] st1) HASH_INDEX_FILE = fs st HASH_INDEX_FILE
       \<and> load_hash_index (fs (emit [ErrorProcessing file e] st1)) = load_hash_index (fs st)
       \<and> (file_hashes st = load_hash_index (fs st) \<longrightarrow>
            py_get (load_hash_index (fs (emit [ErrorProcessing file e] st1))) file = Inr h)"
proof -
  let ?s = "emit [ReadBytes (path_join folder file), ProcessingFile file] st"
  have a: "files_loop env cname folder ex (file # files) st =
           files_loop env cname folder ex files (emit [ErrorProcessing file e] st1)"
    using assms(2-5) by (simp add: emit_emit process_file_def)
  have b: "file_hashes st1 = file_hashes st"
    using try_body_Inl(1) [OF assms(5)] by simp
  have c: "fs st1 HASH_INDEX_FILE = fs st HASH_INDEX_FILE"
    using try_body_Inl(2) [OF assms(5) assms(1)] by simp
  from c have d: "load_hash_index (fs st1) = load_hash_index (fs st)"
    by (rule load_hash_index_cong)
  have f: "py_get (load_hash_index (fs st1)) file = Inr h"
    if "file_hashes st = load_hash_index (fs st)"
    using d assms(3) that by simp
  from b c d f have "file_hashes (emit [ErrorProcessing file e] st1) = file_hashes st
      \<and> fs (emit [ErrorProcessing file e] st1) HASH_INDEX_FILE = fs st HASH_INDEX_FILE
      \<and> load_hash_index (fs (emit [ErrorProcessing file e] st1)) = load_hash_index (fs st)
      \<and> (file_hashes st = load_hash_index (fs st) \<longrightarrow>
           py_get (load_hash_index (fs (emit [ErrorProcessing file e] st1))) file = Inr h)"
    by simp
  with a show ?thesis by blast
qed

theorem C5_witness:
  "hexdigest_ok two_env
   \<and> hash_file two_env (path_join ''./laws'' ''a.PDF'') = Inr ''%PDF ./laws/a.PDF00000000000000000000000''
   \<and> py_get (file_hashes st_run) ''a.PDF'' = Inr JNull
   \<and> JNull \<noteq> JStr ''%PDF ./laws/a.PDF00000000000000000000000''
   \<and> fst (try_body two_env COLLECTION_NAME {} ''a.PDF'' (path_join ''./laws'' ''a.PDF'')
            ''%PDF ./laws/a.PDF00000000000000000000000''
            (emit [ReadBytes (path_join ''./laws'' ''a.PDF''), ProcessingFile ''a.PDF''] st_run))
       = Inl (Exception ''encoder down'')
   \<and> files_loop two_env COLLECTION_NAME ''./laws'' {} [''a.PDF'', ''b.pdf''] st_run =
       files_loop two_env COLLECTION_NAME ''./laws'' {} [''b.pdf'']
         (emit [ErrorProcessing ''a.PDF'' (Exception ''encoder down'')]
            (snd (try_body two_env COLLECTION_NAME {} ''a.PDF'' (path_join ''./laws'' ''a.PDF'')
                    ''%PDF ./laws/a.PDF00000000000000000000000''
                    (emit [ReadBytes (path_join ''./laws'' ''a.PDF''), ProcessingFile ''a.PDF''] st_run))))
   \<and> file_hashes st_run = load_hash_index (fs st_run)
   \<and> py_get (load_hash_index (fs (emit [ErrorProcessing ''a.PDF'' (Exception ''encoder down'')]
            (snd (try_body two_env COLLECTION_NAME {} ''a.PDF'' (path_join ''./laws'' ''a.PDF'')
                    ''%PDF ./laws/a.PDF00000000000000000000000''
                    (emit [ReadBytes (path_join ''./laws'' ''a.PDF''), ProcessingFile ''a.PDF''] st_run))))))
         ''a.PDF'' = Inr JNull
   \<and> fst (load_pdfs two_env ''./laws'' st0) = Inr ()
   \<and> fs (snd (load_pdfs two_env ''./laws'' st0)) HASH_INDEX_FILE =
       Some (Content (JObj [(''b.pdf'', JStr ''%PDF ./laws/b.pdf00000000000000000000000'')]))"
proof -
  let ?d = "''%PDF ./laws/a.PDF00000000000000000000000''"
  let ?p = "path_join ''./laws'' ''a.PDF''"
  let ?t = "try_body two_env COLLECTION_NAME {} ''a.PDF'' ?p ?d
              (emit [ReadBytes ?p, ProcessingFile ''a.PDF''] st_run)"
  have h1: "hexdigest_ok two_env"
    by (auto simp: hexdigest_ok_def two_env_def toy_env_def toy_sha1_def min_def)
  have h2: "hash_file two_env ?p = Inr ?d" by code_simp
  have h3: "py_get (file_hashes st_run) ''a.PDF'' = Inr JNull" by (simp add: st_run_def)
  have h4: "JNull \<noteq> JStr ?d" by simp
  have h5: "fst ?t = Inl (Exception ''encoder down'')" by code_simp
  then have h6: "?t = (Inl (Exception ''encoder down''), snd ?t)" by (simp add: prod_eq_iff)
  note i = C5_error_aborts_file_only [OF h1 h2 h3 h4 h6, of "[''b.pdf'']"]
  have f: "fst (load_pdfs two_env ''./laws'' st0) = Inr ()" by code_simp
  have g: "fs (snd (load_pdfs two_env ''./laws'' st0)) HASH_INDEX_FILE =
       Some (Content (JObj [(''b.pdf'', JStr ''%PDF ./laws/b.pdf00000000000000000000000'')]))"
    by code_simp
  have h7: "file_hashes st_run = load_hash_index (fs st_run)"
    by (simp add: st_run_def st_laws_def st0_def load_hash_index_def)
  from i h1 h2 h3 h4 h5 h7 f g show ?thesis by blast
qed

subsection \<open>C6: the batch buffer\<close>



subsection \<open>C7: the chunk id is the digest of the chunk text followed by the file name\<close>

text \<open>
  Claim C7. The id of a chunk is a deterministic digest of the chunk text followed by
  the name of its source file. In every run, every record handed to \<^verbatim>\<open>collection.add\<close>
  has as id the SHA-1 digest of its own text followed by its own source name; the id
  depends on nothing else, so the same pair gets the same id in every run.
\<close>

theorem C7_chunk_id_is_digest:
  assumes "process_pdfs env cname folder st = (r, st')"
  shows "\<exists>evs. trace st' = trace st @ evs \<and> list_all (ids_are_digests env) evs"
proof -
  have "appended (ids_are_digests env) st st'"
    by (rule process_pdfs_appended [OF assms])
       (erule run_ev_ids, simp_all add: ids_are_digests_def)
  then show ?thesis by (simp add: appended_def)
qed

theorem C7_witness:
  "CollAdd [toy_record] \<in> set (trace (snd (process_pdfs toy_env COLLECTION_NAME ''./laws'' st_laws)))
   \<and> rec_id toy_record = sha1 toy_env (rec_text toy_record @ rec_source toy_record)
   \<and> list_all (ids_are_digests toy_env)
       (trace (snd (process_pdfs toy_env COLLECTION_NAME ''./laws'' st_laws)))"
proof -
  let ?run = "process_pdfs toy_env COLLECTION_NAME ''./laws'' st_laws"
  have "?run = (fst ?run, snd ?run)" by simp
  from C7_chunk_id_is_digest [OF this]
  obtain evs where "trace (snd ?run) = trace st_laws @ evs" "list_all (ids_are_digests toy_env) evs"
    by blast
  moreover have "trace st_laws = []" by (simp add: st_laws_def st0_def)
  ultimately have a: "list_all (ids_are_digests toy_env) (trace (snd ?run))" by simp
  have b: "CollAdd [toy_record] \<in> set (trace (snd ?run))" by code_simp
  have c: "rec_id toy_record = sha1 toy_env (rec_text toy_record @ rec_source toy_record)"
    by code_simp
  from a b c show ?thesis by simp
qed

subsection \<open>C8: a missing or unparsable file is not fatal\<close>

text \<open>
  Claim C8. Loading persisted state never fails. When the hash index file is missing or
  does not parse, \<^verbatim>\<open>load_hash_index\<close> returns the empty dict, so that no file of the
  folder is skipped: the loop hands each one it can hash to the \<^verbatim>\<open>try\<close> block. When a
  cache file is missing or does not parse, \<^verbatim>\<open>load_cache\<close> returns \<^verbatim>\<open>None\<close>, which is a
  miss: the embedder is called for the chunk. Neither function lets the exception of
  \<^verbatim>\<open>json.load\<close> out.
\<close>

theorem C8_fail_open:
  "(fs st HASH_INDEX_FILE = None \<or> fs st HASH_INDEX_FILE = Some Corrupt \<longrightarrow>
      load_hash_index (fs st) = JObj []
      \<and> (file_hashes st = load_hash_index (fs st)
           \<and> hash_file env (path_join folder f) = Inr d \<longrightarrow>
         files_loop env cname folder ex (f # files) st =
           files_loop env cname folder ex files
             (process_file env cname ex f (path_join folder f) d
                (emit [ReadBytes (path_join folder f), ProcessingFile f] st))))
   \<and> (fs st fp = None \<or> fs st fp = Some Corrupt \<longrightarrow>
        load_cache (fs st) fp = JNull
      \<and> trace (snd (get_embedding env chunk fp st)) =
          trace st @ CacheRead fp # Encode chunk #
            (case encode env chunk of
               Inl e \<Rightarrow> []
             | Inr v \<Rightarrow> [CacheWrite fp (JList (map JNum v))]))"
proof -
  have a: "load_hash_index (fs st) = JObj []"
    if "fs st HASH_INDEX_FILE = None \<or> fs st HASH_INDEX_FILE = Some Corrupt"
    using that by (auto simp: load_hash_index_def)
  have b: "files_loop env cname folder ex (f # files) st =
           files_loop env cname folder ex files
             (process_file env cname ex f (path_join folder f) d
                (emit [ReadBytes (path_join folder f), ProcessingFile f] st))"
    if "load_hash_index (fs st) = JObj []" "file_hashes st = load_hash_index (fs st)"
      "hash_file env (path_join folder f) = Inr d"
    using that by (simp add: emit_emit Let_def)
  have c: "load_cache (fs st) fp = JNull" if "fs st fp = None \<or> fs st fp = Some Corrupt"
    using that by (auto simp: load_cache_def)
  have d: "trace (snd (get_embedding env chunk fp st)) =
          trace st @ CacheRead fp # Encode chunk #
            (case encode env chunk of
               Inl e \<Rightarrow> []
             | Inr v \<Rightarrow> [CacheWrite fp (JList (map JNum v))])"
    if "load_cache (fs st) fp = JNull"
    using that by (cases "encode env chunk") (simp_all add: get_embedding_def Let_def)
  from a b c d show ?thesis by blast
qed

theorem C8_witness:
  "fs st_corrupt HASH_INDEX_FILE = Some Corrupt
   \<and> load_hash_index (fs st_corrupt) = JObj []
   \<and> file_hashes st_corrupt = load_hash_index (fs st_corrupt)
   \<and> hash_file toy_env (path_join ''./laws'' ''a.PDF'') = Inr ''%PDF ./laws/a.PDF00000000000000000000000''
   \<and> files_loop toy_env COLLECTION_NAME ''./laws'' {} [''a.PDF''] st_corrupt =
       files_loop toy_env COLLECTION_NAME ''./laws'' {} []
         (process_file toy_env COLLECTION_NAME {} ''a.PDF'' (path_join ''./laws'' ''a.PDF'')
            ''%PDF ./laws/a.PDF00000000000000000000000''
            (emit [ReadBytes (path_join ''./laws'' ''a.PDF''), ProcessingFile ''a.PDF''] st_corrupt))
   \<and> fs st_corrupt (cache_fp (rec_id toy_record)) = Some Corrupt
   \<and> load_cache (fs st_corrupt) (cache_fp (rec_id toy_record)) = JNull
   \<and> trace (snd (get_embedding toy_env ''alpha beta'' (cache_fp (rec_id toy_record)) st_corrupt)) =
       [CacheRead (cache_fp (rec_id toy_record)), Encode ''alpha beta'',
        CacheWrite (cache_fp (rec_id toy_record)) (JList [JNum (1 / 2), JNum (1 / 4)])]
   \<and> fst (load_pdfs toy_env ''./laws'' st_corrupt) = Inr ()
   \<and> chroma (snd (load_pdfs toy_env ''./laws'' st_corrupt)) COLLECTION_NAME = Some [toy_record]"
proof -
  let ?fp = "cache_fp (rec_id toy_record)"
  have h1: "fs st_corrupt HASH_INDEX_FILE = Some Corrupt"
    by (simp add: st_corrupt_def)
  have h2: "fs st_corrupt ?fp = Some Corrupt"
    by code_simp
  have h3: "hash_file toy_env (path_join ''./laws'' ''a.PDF'') = Inr ''%PDF ./laws/a.PDF00000000000000000000000''"
    by code_simp
  note i = C8_fail_open [of st_corrupt toy_env "''./laws''" "''a.PDF''"
      "''%PDF ./laws/a.PDF00000000000000000000000''" COLLECTION_NAME "{}" "[]" ?fp "''alpha beta''"]
  from i h1 have a: "load_hash_index (fs st_corrupt) = JObj []" by blast
  then have s: "file_hashes st_corrupt = load_hash_index (fs st_corrupt)"
    by (simp add: st_corrupt_def)
  from i h1 s h3 have b: "files_loop toy_env COLLECTION_NAME ''./laws'' {} [''a.PDF''] st_corrupt =
       files_loop toy_env COLLECTION_NAME ''./laws'' {} []
         (process_file toy_env COLLECTION_NAME {} ''a.PDF'' (path_join ''./laws'' ''a.PDF'')
            ''%PDF ./laws/a.PDF00000000000000000000000''
            (emit [ReadBytes (path_join ''./laws'' ''a.PDF''), ProcessingFile ''a.PDF''] st_corrupt))"
    by blast
  from i h2 have c: "load_cache (fs st_corrupt) ?fp = JNull" by blast
  have e: "encode toy_env ''alpha beta'' = Inr [1 / 2, 1 / 4]" by (simp add: toy_env_def)
  have t: "trace st_corrupt = []" by (simp add: st_corrupt_def st_laws_def st0_def)
  from i h2 have "trace (snd (get_embedding toy_env ''alpha beta'' ?fp st_corrupt)) =
          trace st_corrupt @ CacheRead ?fp # Encode ''alpha beta'' #
            (case encode toy_env ''alpha beta'' of
               Inl e \<Rightarrow> []
             | Inr v \<Rightarrow> [CacheWrite ?fp (JList (map JNum v))])" by blast
  then have d: "trace (snd (get_embedding toy_env ''alpha beta'' ?fp st_corrupt)) =
       [CacheRead ?fp, Encode ''alpha beta'',
        CacheWrite ?fp (JList [JNum (1 / 2), JNum (1 / 4)])]"
    by (simp add: e t)
  have f: "fst (load_pdfs toy_env ''./laws'' st_corrupt) = Inr ()" by code_simp
  have g: "chroma (snd (load_pdfs toy_env ''./laws'' st_corrupt)) COLLECTION_NAME = Some [toy_record]"
    by code_simp
  from h1 a s h3 b h2 c d f g show ?thesis by blast
qed

subsection \<open>C9: a falsy cache entry is a miss\<close>

text \<open>
  Claim C9, as amended. A cache file that parses to a falsy value (an empty list, for
  one) is treated as a missing file is: the embedder is called with the chunk, and when
  it returns, its vector is the embedding and overwrites the cache file. A cache file
  that parses to a truthy value is a hit whatever the value is: it becomes the embedding
  as it stands, the embedder is not called and nothing is written.
\<close>

theorem C9_falsy_entry_is_a_miss:
  assumes "fs st fp = Some (Content j)"
  shows "(\<not> truthy j \<longrightarrow>
            fst (get_embedding env chunk fp st)
              = fst (get_embedding env chunk fp (st\<lparr>fs := (fs st)(fp := None)\<rparr>))
          \<and> trace (snd (get_embedding env chunk fp st))
              = trace (snd (get_embedding env chunk fp (st\<lparr>fs := (fs st)(fp := None)\<rparr>)))
          \<and> trace (snd (get_embedding env chunk fp st))
              = trace st @ CacheRead fp # Encode chunk #
                  (case encode env chunk of
                     Inl e \<Rightarrow> []
                   | Inr v \<Rightarrow> [CacheWrite fp (JList (map JNum v))])
          \<and> (\<forall>v. encode env chunk = Inr v \<longrightarrow>
                fst (get_embedding env chunk fp st) = Inr (JList (map JNum v))
              \<and> fs (snd (get_embedding env chunk fp st))
                  = (fs st)(fp \<mapsto> Content (JList (map JNum v)))))
       \<and> (truthy j \<longrightarrow> get_embedding env chunk fp st = (Inr j, emit [CacheRead fp] st))"
  using assms
  by (cases "encode env chunk")
     (auto simp: get_embedding_def load_cache_def save_cache_def Let_def emit_def)

theorem C9_witness:
  "fs (st_cached (JList [])) (cache_fp (rec_id toy_record)) = Some (Content (JList []))
   \<and> \<not> truthy (JList [])
   \<and> encode toy_env ''alpha beta'' = Inr [1 / 2, 1 / 4]
   \<and> fst (get_embedding toy_env ''alpha beta'' (cache_fp (rec_id toy_record)) (st_cached (JList [])))
       = Inr (JList [JNum (1 / 2), JNum (1 / 4)])
   \<and> fs (snd (get_embedding toy_env ''alpha beta'' (cache_fp (rec_id toy_record)) (st_cached (JList []))))
       (cache_fp (rec_id toy_record)) = Some (Content (JList [JNum (1 / 2), JNum (1 / 4)]))
   \<and> fs (st_cached (JList [JNum 1])) (cache_fp (rec_id toy_record)) = Some (Content (JList [JNum 1]))
   \<and> truthy (JList [JNum 1])
   \<and> get_embedding toy_env ''alpha beta'' (cache_fp (rec_id toy_record)) (st_cached (JList [JNum 1]))
       = (Inr (JList [JNum 1]), emit [CacheRead (cache_fp (rec_id toy_record))] (st_cached (JList [JNum 1])))"
proof -
  let ?fp = "cache_fp (rec_id toy_record)"
  have h1: "fs (st_cached (JList [])) ?fp = Some (Content (JList []))"
    by (simp add: st_cached_def)
  have h2: "fs (st_cached (JList [JNum 1])) ?fp = Some (Content (JList [JNum 1]))"
    by (simp add: st_cached_def)
  have e: "encode toy_env ''alpha beta'' = Inr [1 / 2, 1 / 4]" by (simp add: toy_env_def)
  note i1 = C9_falsy_entry_is_a_miss [OF h1, of toy_env "''alpha beta''"]
  note i2 = C9_falsy_entry_is_a_miss [OF h2, of toy_env "''alpha beta''"]
  have nt: "\<not> truthy (JList [])" by simp
  from i1 nt have "\<forall>v. encode toy_env ''alpha beta'' = Inr v \<longrightarrow>
      fst (get_embedding toy_env ''alpha beta'' ?fp (st_cached (JList []))) = Inr (JList (map JNum v))
      \<and> fs (snd (get_embedding toy_env ''alpha beta'' ?fp (st_cached (JList []))))
          = (fs (st_cached (JList [])))(?fp \<mapsto> Content (JList (map JNum v)))"
    by blast
  with e have "fst (get_embedding toy_env ''alpha beta'' ?fp (st_cached (JList [])))
        = Inr (JList (map JNum [1 / 2, 1 / 4]))
      \<and> fs (snd (get_embedding toy_env ''alpha beta'' ?fp (st_cached (JList []))))
          = (fs (st_cached (JList [])))(?fp \<mapsto> Content (JList (map JNum [1 / 2, 1 / 4])))"
    by blast
  then have a: "fst (get_embedding toy_env ''alpha beta'' ?fp (st_cached (JList [])))
       = Inr (JList [JNum (1 / 2), JNum (1 / 4)])
     \<and> fs (snd (get_embedding toy_env ''alpha beta'' ?fp (st_cached (JList [])))) ?fp
         = Some (Content (JList [JNum (1 / 2), JNum (1 / 4)]))"
    by simp
  from i2 have b: "get_embedding toy_env ''alpha beta'' ?fp (st_cached (JList [JNum 1]))
       = (Inr (JList [JNum 1]), emit [CacheRead ?fp] (st_cached (JList [JNum 1])))"
    by simp
  from h1 h2 e a b nt show ?thesis by simp
qed

text \<open>
  The claim as stated lets only a non-empty vector be a hit. A cache file holding the
  number 7 is a hit too: the run hands the store a record whose embedding is 7 and
  never calls the embedder.
\<close>

theorem C9_counterexample:
  "fs (st_cached (JNum 7)) ''./cache/alpha betaa.PDF0000000000000000000000000.json''
     = Some (Content (JNum 7))
   \<and> CollAdd [toy_record\<lparr>rec_emb := JNum 7\<rparr>]
       \<in> set (trace (snd (process_pdfs toy_env COLLECTION_NAME ''./laws'' (st_cached (JNum 7)))))
   \<and> Encode ''alpha beta''
       \<notin> set (trace (snd (process_pdfs toy_env COLLECTION_NAME ''./laws'' (st_cached (JNum 7)))))"
  by code_simp

subsection \<open>C10: only the PDF entries of the folder are considered\<close>

text \<open>
  Claim C10. A run considers only the directory entries whose names end in
  \<^verbatim>\<open>.pdf\<close>, whatever the case of the letters. Every file it opens to hash or to
  extract is such an entry, every notice it prints names one, every record it hands to
  the store has one as its source and every cache file it reads or writes belongs to a
  chunk of one; the index entry of any other name is what it was. With no such entry in
  the folder the run prints one notice and changes nothing else, without raising.
\<close>

theorem C10_only_pdf_entries:
  assumes "process_pdfs env cname folder st = (r, st')"
  shows "(\<exists>evs. trace st' = trace st @ evs
            \<and> list_all (pdf_only env folder (set (filter is_pdf (pdf_files env folder)))) evs)
       \<and> (hexdigest_ok env \<longrightarrow>
            (\<forall>k. \<not> is_pdf k \<longrightarrow>
               py_get (load_hash_index (fs st')) k = py_get (load_hash_index (fs st)) k))
       \<and> (\<forall>entries. listdir env folder = Inr entries \<and> filter is_pdf entries = [] \<longrightarrow>
            r = Inr () \<and> st' = emit [NoPdfFound] st)"
proof -
  have f: "filter is_pdf (pdf_files env folder) = pdf_files env folder"
    by (auto simp: pdf_files_def split: sum.splits)
  have "appended (pdf_only env folder (set (pdf_files env folder))) st st'"
    by (rule process_pdfs_appended [OF assms])
       (erule run_ev_pdf_only, simp_all add: pdf_only_def)
  then have a: "\<exists>evs. trace st' = trace st @ evs
      \<and> list_all (pdf_only env folder (set (filter is_pdf (pdf_files env folder)))) evs"
    by (simp add: appended_def f)
  have b: "\<forall>k. \<not> is_pdf k \<longrightarrow>
      py_get (load_hash_index (fs st')) k = py_get (load_hash_index (fs st)) k" if "hexdigest_ok env"
    using process_pdfs_index_frame [OF assms that] by blast
  have c: "r = Inr () \<and> st' = emit [NoPdfFound] st"
    if "listdir env folder = Inr entries" "filter is_pdf entries = []" for entries
    using assms that by (simp add: process_pdfs_def)
  from a b c show ?thesis by blast
qed

theorem C10_witness:
  "list_all (pdf_only toy_env ''./laws'' (set (filter is_pdf (pdf_files toy_env ''./laws''))))
     (trace (snd (process_pdfs toy_env COLLECTION_NAME ''./laws'' st_laws)))
   \<and> filter is_pdf (pdf_files toy_env ''./laws'') = [''a.PDF'']
   \<and> ReadBytes ''./laws/a.PDF'' \<in> set (trace (snd (process_pdfs toy_env COLLECTION_NAME ''./laws'' st_laws)))
   \<and> ReadBytes ''./laws/notes.txt'' \<notin> set (trace (snd (process_pdfs toy_env COLLECTION_NAME ''./laws'' st_laws)))
   \<and> hexdigest_ok toy_env \<and> \<not> is_pdf ''notes.txt''
   \<and> py_get (load_hash_index (fs (snd (process_pdfs toy_env COLLECTION_NAME ''./laws'' st_laws)))) ''notes.txt''
       = py_get (load_hash_index (fs st_laws)) ''notes.txt''
   \<and> listdir nopdf_env ''./laws'' = Inr [''notes.txt'', ''pdf'']
   \<and> filter is_pdf [''notes.txt'', ''pdf''] = []
   \<and> process_pdfs nopdf_env COLLECTION_NAME ''./laws'' st_laws = (Inr (), emit [NoPdfFound] st_laws)"
proof -
  let ?run = "process_pdfs toy_env COLLECTION_NAME ''./laws'' st_laws"
  let ?run2 = "process_pdfs nopdf_env COLLECTION_NAME ''./laws'' st_laws"
  have h1: "?run = (fst ?run, snd ?run)" by simp
  have h2: "?run2 = (fst ?run2, snd ?run2)" by simp
  note i1 = C10_only_pdf_entries [OF h1]
  note i2 = C10_only_pdf_entries [OF h2]
  have e: "trace st_laws = []" by (simp add: st_laws_def st0_def)
  from i1 obtain evs where "trace (snd ?run) = trace st_laws @ evs"
    "list_all (pdf_only toy_env ''./laws'' (set (filter is_pdf (pdf_files toy_env ''./laws'')))) evs"
    by blast
  with e have a: "list_all (pdf_only toy_env ''./laws'' (set (filter is_pdf (pdf_files toy_env ''./laws''))))
     (trace (snd ?run))" by simp
  have b: "filter is_pdf (pdf_files toy_env ''./laws'') = [''a.PDF'']" by code_simp
  have c: "ReadBytes ''./laws/a.PDF'' \<in> set (trace (snd ?run))" by code_simp
  have d: "ReadBytes ''./laws/notes.txt'' \<notin> set (trace (snd ?run))" by code_simp
  have n: "\<not> is_pdf ''notes.txt''" by code_simp
  from i1 toy_hexdigest_ok n
  have g: "py_get (load_hash_index (fs (snd ?run))) ''notes.txt''
       = py_get (load_hash_index (fs st_laws)) ''notes.txt''" by blast
  have l: "listdir nopdf_env ''./laws'' = Inr [''notes.txt'', ''pdf'']"
    by (simp add: nopdf_env_def)
  have m: "filter is_pdf [''notes.txt'', ''pdf''] = []" by code_simp
  from i2 l m have "fst ?run2 = Inr () \<and> snd ?run2 = emit [NoPdfFound] st_laws" by blast
  then have k: "?run2 = (Inr (), emit [NoPdfFound] st_laws)" by (simp add: prod_eq_iff)
  from a b c d toy_hexdigest_ok n g l m k show ?thesis by blast
qed

end
